theory Spec2Isabelle
  imports Main "HOL-Library.Sublist"
begin

chapter \<open>Scoped file access and search of DesktopCommanderMCP\<close>

text \<open>
  A shallow embedding of the path gate (\<^verbatim>\<open>src/utils/security.ts\<close>,
  \<^verbatim>\<open>src/utils/windowsPathFix.ts\<close>, \<^verbatim>\<open>validatePath\<close> of
  \<^verbatim>\<open>src/tools/filesystem.ts\<close>), of the line-addressable reader of
  \<^verbatim>\<open>src/tools/filesystem.ts\<close> and of the search tools. JavaScript strings are
  \<^typ>\<open>string\<close>; what the code reads from the operating system (the platform, the
  \<^verbatim>\<open>path\<close> module, the file system, the clock) is an explicit argument.
\<close>

section \<open>JavaScript string and array primitives\<close>

abbreviation LF :: char where "LF \<equiv> CHR 0x0A"
abbreviation CR :: char where "CR \<equiv> CHR 0x0D"

text \<open>\<^verbatim>\<open>s.startsWith(p)\<close> and \<^verbatim>\<open>s.includes(sub)\<close>.\<close>

definition js_startsWith :: "string \<Rightarrow> string \<Rightarrow> bool" where
  "js_startsWith s p = prefix p s"

fun js_includes :: "string \<Rightarrow> string \<Rightarrow> bool" where
  "js_includes [] sub = (sub = [])"
| "js_includes (c # cs) sub = (prefix sub (c # cs) \<or> js_includes cs sub)"

text \<open>\<^verbatim>\<open>s.toLowerCase()\<close>, on the ASCII letters.\<close>

definition lower_char :: "char \<Rightarrow> char" where
  "lower_char c =
     (let n = (of_char c :: nat) in if 65 \<le> n \<and> n \<le> 90 then char_of (n + 32) else c)"

definition js_toLowerCase :: "string \<Rightarrow> string" where
  "js_toLowerCase s = map lower_char s"

text \<open>\<^verbatim>\<open>xs.join(sep)\<close> and \<^verbatim>\<open>s.split(c)\<close> for a one-character separator.\<close>

fun js_join :: "string \<Rightarrow> string list \<Rightarrow> string" where
  "js_join s [] = []"
| "js_join s [x] = x"
| "js_join s (x # y # ys) = x @ s @ js_join s (y # ys)"

fun js_split :: "char \<Rightarrow> string \<Rightarrow> string list" where
  "js_split d [] = [[]]"
| "js_split d (c # cs) =
     (if c = d then [] # js_split d cs
      else (case js_split d cs of [] \<Rightarrow> [[c]] | w # ws \<Rightarrow> (c # w) # ws))"

text \<open>\<^verbatim>\<open>s.trim()\<close>, on the ASCII white space.\<close>

definition js_isSpace :: "char \<Rightarrow> bool" where
  "js_isSpace c = (c \<in> set [CHR 0x20, CHR 0x09, LF, CHR 0x0B, CHR 0x0C, CR])"

definition js_trim :: "string \<Rightarrow> string" where
  "js_trim s = rev (dropWhile js_isSpace (rev (dropWhile js_isSpace s)))"

text \<open>
  \<^verbatim>\<open>xs.slice(start, end)\<close>: a negative index counts from the end, and both are
  clamped to the array.
\<close>

definition js_slice :: "'a list \<Rightarrow> int \<Rightarrow> int \<Rightarrow> 'a list" where
  "js_slice xs start fin =
     (let n = int (length xs);
          k = (if start < 0 then max (n + start) 0 else min start n);
          f = (if fin < 0 then max (n + fin) 0 else min fin n)
      in take (nat (f - k)) (drop (nat k) xs))"

section \<open>The path module\<close>

text \<open>
  \<^verbatim>\<open>path\<close> is Node's, chosen by the platform; the code below takes it as a record
  of its functions. \<open>posix_path\<close> is the POSIX one, segment by segment as Node
  normalises.
\<close>

record path_module =
  path_sep :: string
  path_resolve :: "string list \<Rightarrow> string"
  path_normalize :: "string \<Rightarrow> string"
  path_join :: "string list \<Rightarrow> string"
  path_isAbsolute :: "string \<Rightarrow> bool"
  path_dirname :: "string \<Rightarrow> string"

definition posix_isAbsolute :: "string \<Rightarrow> bool" where
  "posix_isAbsolute p = (case p of [] \<Rightarrow> False | c # _ \<Rightarrow> c = CHR ''/'')"

fun normalizeSegments :: "bool \<Rightarrow> string list \<Rightarrow> string list \<Rightarrow> string list" where
  "normalizeSegments allowAboveRoot res [] = res"
| "normalizeSegments allowAboveRoot res (s # ss) =
     (if s = [] \<or> s = ''.'' then normalizeSegments allowAboveRoot res ss
      else if s = ''..'' then
        (if res \<noteq> [] \<and> last res \<noteq> ''..'' then normalizeSegments allowAboveRoot (butlast res) ss
         else if allowAboveRoot then normalizeSegments allowAboveRoot (res @ [''..'']) ss
         else normalizeSegments allowAboveRoot res ss)
      else normalizeSegments allowAboveRoot (res @ [s]) ss)"

definition normalizeString :: "string \<Rightarrow> bool \<Rightarrow> string" where
  "normalizeString p allowAboveRoot =
     js_join ''/'' (normalizeSegments allowAboveRoot [] (js_split (CHR ''/'') p))"

definition posix_normalize :: "string \<Rightarrow> string" where
  "posix_normalize p =
     (if p = [] then ''.''
      else
        (let isAbs = posix_isAbsolute p;
             trailingSeparator = (last p = CHR ''/'');
             q = normalizeString p (\<not> isAbs)
         in if q = [] then (if isAbs then ''/'' else if trailingSeparator then ''./'' else ''.'')
            else (let q' = (if trailingSeparator then q @ ''/'' else q)
                  in if isAbs then CHR ''/'' # q' else q')))"

fun resolveLoop :: "string list \<Rightarrow> string \<Rightarrow> string \<times> bool" where
  "resolveLoop [] resolvedPath = (resolvedPath, False)"
| "resolveLoop (p # ps) resolvedPath =
     (if p = [] then resolveLoop ps resolvedPath
      else if posix_isAbsolute p then (p @ ''/'' @ resolvedPath, True)
      else resolveLoop ps (p @ ''/'' @ resolvedPath))"

definition posix_resolve :: "string \<Rightarrow> string list \<Rightarrow> string" where
  "posix_resolve cwd args =
     (case resolveLoop (rev args @ [cwd]) [] of
        (resolvedPath, resolvedAbsolute) \<Rightarrow>
          (let n = normalizeString resolvedPath (\<not> resolvedAbsolute)
           in if resolvedAbsolute then CHR ''/'' # n else if n \<noteq> [] then n else ''.''))"

definition posix_join :: "string list \<Rightarrow> string" where
  "posix_join args =
     (let joined = filter (\<lambda>a. a \<noteq> []) args
      in if joined = [] then ''.'' else posix_normalize (js_join ''/'' joined))"

definition posix_dirname :: "string \<Rightarrow> string" where
  "posix_dirname p =
     (if p = [] then ''.''
      else
        (let hasRoot = posix_isAbsolute p;
             r = dropWhile (\<lambda>c. c \<noteq> CHR ''/'')
                   (dropWhile (\<lambda>c. c = CHR ''/'') (rev (tl p)))
         in if r = [] then (if hasRoot then ''/'' else ''.'')
            else if hasRoot \<and> length r = 1 then ''//''
            else take (length r) p))"

definition posix_path :: "string \<Rightarrow> path_module" where
  "posix_path cwd =
     \<lparr> path_sep = ''/'',
       path_resolve = posix_resolve cwd,
       path_normalize = posix_normalize,
       path_join = posix_join,
       path_isAbsolute = posix_isAbsolute,
       path_dirname = posix_dirname \<rparr>"

section \<open>The path gate\<close>

text \<open>
  What the gate reads from its surroundings: the platform and its path module, the
  process's directories, the configured allowed directories (\<open>None\<close> when the
  configuration holds no array) and the file system's \<^verbatim>\<open>realpath\<close>, which fails
  (\<open>None\<close>) on a path that does not exist. \<^verbatim>\<open>fs.stat\<close> follows symbolic links as
  \<^verbatim>\<open>fs.realpath\<close> does, so it succeeds on the same paths. \<open>slow\<close> says that the
  file system does not answer within the validation's time limit.
\<close>

record host =
  path :: path_module
  win32 :: bool
  cwd :: string
  homedir :: string
  tmpdir :: string
  allowedDirectories :: "string list option"
  realpath :: "string \<Rightarrow> string option"
  slow :: bool

subsection \<open>\<^verbatim>\<open>src/utils/security.ts\<close>\<close>

definition withinDir :: "path_module \<Rightarrow> bool \<Rightarrow> string \<Rightarrow> string \<Rightarrow> bool" where
  \<comment> \<open>the callback of \<^verbatim>\<open>allowedDirs.some\<close>\<close>
  "withinDir P w normalizedPath dir =
     (let normalizedDir = path_normalize P (path_resolve P [dir])
      in if w then
           (let pathLower = js_toLowerCase normalizedPath;
                dirLower = js_toLowerCase normalizedDir
            in pathLower = dirLower \<or> js_startsWith pathLower (dirLower @ path_sep P))
         else normalizedPath = normalizedDir
              \<or> js_startsWith normalizedPath (normalizedDir @ path_sep P))"

definition isPathAllowed :: "path_module \<Rightarrow> bool \<Rightarrow> string \<Rightarrow> string list \<Rightarrow> bool" where
  "isPathAllowed P w targetPath allowedDirs =
     (let normalizedPath = path_normalize P (path_resolve P [targetPath])
      in if js_includes normalizedPath ''..'' then False
         else list_ex (withinDir P w normalizedPath) allowedDirs)"

definition containsTraversal :: "path_module \<Rightarrow> string \<Rightarrow> bool" where
  \<comment> \<open>the field of \<^verbatim>\<open>analyzePathSecurity\<close> that the denial logs\<close>
  "containsTraversal P pathToAnalyze = js_includes (path_normalize P pathToAnalyze) ''..''"

subsection \<open>\<^verbatim>\<open>src/utils/windowsPathFix.ts\<close>\<close>

fun collapseBackslashes :: "string \<Rightarrow> string" where
  \<comment> \<open>\<^verbatim>\<open>replace(/\\+/g, '\\')\<close>\<close>
  "collapseBackslashes [] = []"
| "collapseBackslashes [c] = [c]"
| "collapseBackslashes (c # d # cs) =
     (if c = CHR 0x5C \<and> d = CHR 0x5C then collapseBackslashes (d # cs)
      else c # collapseBackslashes (d # cs))"

definition upper_char :: "char \<Rightarrow> char" where
  "upper_char c =
     (let n = (of_char c :: nat) in if 97 \<le> n \<and> n \<le> 122 then char_of (n - 32) else c)"

definition upperDrive :: "string \<Rightarrow> string" where
  \<comment> \<open>the drive letter in upper case when the path matches \<^verbatim>\<open>/^[a-z]:/\<close>\<close>
  "upperDrive p =
     (case p of
        c # d # cs \<Rightarrow> if upper_char c \<noteq> c \<and> d = CHR '':'' then upper_char c # d # cs else p
      | _ \<Rightarrow> p)"

definition normalizeWindowsPath :: "host \<Rightarrow> string \<Rightarrow> string" where
  "normalizeWindowsPath h inputPath =
     (if inputPath = [] then inputPath
      else if win32 h then upperDrive (path_normalize (path h) (collapseBackslashes inputPath))
      else path_normalize (path h) inputPath)"

definition expandHome :: "host \<Rightarrow> string \<Rightarrow> string" where
  "expandHome h filepath =
     (if filepath = [] then filepath
      else if js_startsWith filepath ''~/'' \<or> filepath = ''~''
        then path_join (path h) [homedir h, tl filepath]
      else filepath)"

definition toAbsolutePath :: "host \<Rightarrow> string \<Rightarrow> string" where
  "toAbsolutePath h inputPath =
     (if inputPath = [] then inputPath
      else
        (let normalizedPath = normalizeWindowsPath h inputPath;
             expandedPath = expandHome h normalizedPath
         in if path_isAbsolute (path h) expandedPath then path_resolve (path h) [expandedPath]
            else path_resolve (path h) [cwd h, expandedPath]))"

subsection \<open>\<^verbatim>\<open>validatePath\<close> of \<^verbatim>\<open>src/tools/filesystem.ts\<close>\<close>

datatype fs_error =
    PathNotAllowed string "string list"
      \<comment> \<open>\<^verbatim>\<open>Path not allowed: p. Must be within one of these directories: ...\<close>\<close>
  | PathValidationFailed string
      \<comment> \<open>the validation did not settle within its time limit\<close>
  | InvalidFilePath
  | ImageNotText
  | ReadFailed string
  | ReadTimedOut

definition getAllowedDirs :: "host \<Rightarrow> string list" where
  "getAllowedDirs h =
     (case allowedDirectories h of
        Some dirs \<Rightarrow> dirs
      | None \<Rightarrow>
          [path_join (path h) [homedir h, ''.claude-server-commander'', ''workspace''],
           path_join (path h) [homedir h, ''Documents'', ''claude-projects''],
           tmpdir h])"

definition isPathAllowed_fs :: "host \<Rightarrow> string \<Rightarrow> bool" where
  \<comment> \<open>\<^verbatim>\<open>isPathAllowed\<close> of filesystem.ts, which calls the one of security.ts\<close>
  "isPathAllowed_fs h pathToCheck =
     (let dirs = getAllowedDirs h
      in if length dirs = 0 then False else isPathAllowed (path h) (win32 h) pathToCheck dirs)"

partial_function (option) validateParentDirectories :: "host \<Rightarrow> string \<Rightarrow> bool option" where
  "validateParentDirectories h directoryPath =
     (let parentDir = path_dirname (path h) directoryPath
      in if parentDir = directoryPath \<or> parentDir = path_dirname (path h) parentDir
           then Some False
         else (case realpath h parentDir of
                 Some _ \<Rightarrow> Some True
               | None \<Rightarrow> validateParentDirectories h parentDir))"

declare validateParentDirectories.simps [code]

definition validationOperation :: "host \<Rightarrow> string \<Rightarrow> (fs_error + string) option" where
  \<comment> \<open>\<open>None\<close>: the walk up the parents does not return\<close>
  "validationOperation h requestedPath =
     (let absolute = toAbsolutePath h requestedPath
      in if \<not> isPathAllowed_fs h absolute
           then Some (Inl (PathNotAllowed requestedPath (getAllowedDirs h)))
         else (case realpath h absolute of
                 Some real \<Rightarrow> Some (Inr real)
               | None \<Rightarrow>
                   (case validateParentDirectories h absolute of
                      None \<Rightarrow> None
                    | Some found \<Rightarrow> if found then Some (Inr absolute) else Some (Inr absolute))))"

text \<open>
  Modelled from the spec: \<^verbatim>\<open>withTimeout\<close> of \<^verbatim>\<open>utils/withTimeout.js\<close>, which is not
  among the sources. The specification has every long-running operation wrapped in a
  deadline, and the validation fail on timeout with an error distinct from a denial: an
  operation that settles in time gives its own result or its own error, and one that does
  not (it is late, or it never returns) gives the timeout's error.
\<close>

definition withTimeout :: "bool \<Rightarrow> 'e \<Rightarrow> ('e + 'a) option \<Rightarrow> 'e + 'a" where
  "withTimeout late timeoutError operation =
     (case operation of
        None \<Rightarrow> Inl timeoutError
      | Some r \<Rightarrow> if late then Inl timeoutError else r)"

definition validatePath :: "host \<Rightarrow> string \<Rightarrow> fs_error + string" where
  "validatePath h requestedPath =
     withTimeout (slow h) (PathValidationFailed requestedPath) (validationOperation h requestedPath)"

section \<open>The line-addressable reader\<close>

text \<open>
  A number in a template string: an integer prints in decimal.
\<close>

definition digitChar :: "nat \<Rightarrow> char" where
  "digitChar d = char_of (48 + d)"

function natToString :: "nat \<Rightarrow> string" where
  "natToString n = (if n < 10 then [digitChar n] else natToString (n div 10) @ [digitChar (n mod 10)])"
  by pat_completeness auto
termination
  by (relation "measure (\<lambda>n. n)") auto

declare natToString.simps [simp del]

definition numToString :: "int \<Rightarrow> string" where
  "numToString i = (if i < 0 then CHR ''-'' # natToString (nat (- i)) else natToString (nat i))"

definition LARGE_FILE_THRESHOLD :: nat where
  "LARGE_FILE_THRESHOLD = 10 * 1024 * 1024"

definition LINE_COUNT_LIMIT :: nat where
  "LINE_COUNT_LIMIT = 10 * 1024 * 1024"

definition SMALL_READ_THRESHOLD :: int where
  "SMALL_READ_THRESHOLD = 100"

definition DEEP_OFFSET_THRESHOLD :: int where
  "DEEP_OFFSET_THRESHOLD = 1000"

definition SAMPLE_SIZE :: nat where
  "SAMPLE_SIZE = 10000"

definition CHUNK_SIZE :: nat where
  "CHUNK_SIZE = 8192"

text \<open>
  A file is the string of its bytes; the model reads text that decodes byte by byte
  (ASCII), so that a chunk of bytes is the same piece of the text.

  Node's \<^verbatim>\<open>readline\<close> over a file stream, with \<^verbatim>\<open>crlfDelay: Infinity\<close>: a line
  ends at \<^verbatim>\<open>\r\n\<close>, \<^verbatim>\<open>\n\<close> or a lone \<^verbatim>\<open>\r\<close>, the terminator is dropped, and what
  follows the last terminator is a line when it is not empty.
\<close>

fun readlineLoop :: "string \<Rightarrow> string \<Rightarrow> string list" where
  "readlineLoop buf [] = (if buf \<noteq> [] then [buf] else [])"
| "readlineLoop buf [c] =
     (if c = LF \<or> c = CR then [buf] else readlineLoop (buf @ [c]) [])"
| "readlineLoop buf (c # d # cs) =
     (if c = LF then buf # readlineLoop [] (d # cs)
      else if c = CR then
        (if d = LF then buf # readlineLoop [] cs else buf # readlineLoop [] (d # cs))
      else readlineLoop (buf @ [c]) (d # cs))"

definition readline :: "string \<Rightarrow> string list" where
  "readline bytes = readlineLoop [] bytes"

definition countLines :: "string \<Rightarrow> nat" where
  "countLines bytes = length (js_split LF bytes)"

text \<open>Every \<^verbatim>\<open>\r\<close> of the file is followed by \<^verbatim>\<open>\n\<close>.\<close>

fun noLoneCR :: "string \<Rightarrow> bool" where
  "noLoneCR [] = True"
| "noLoneCR [c] = (c \<noteq> CR)"
| "noLoneCR (c # d # cs) = ((c = CR \<longrightarrow> d = LF) \<and> noLoneCR (d # cs))"

text \<open>
  The disk as the reader sees it: \<open>readFile\<close> gives a file's bytes (\<open>None\<close> when the
  path cannot be read; \<^verbatim>\<open>fs.stat\<close> and \<^verbatim>\<open>fs.open\<close> fail on the same paths), the MIME
  collaborator, \<^verbatim>\<open>Buffer.toString('base64')\<close>, the configured default length, whether
  the read outlasts its time limit, and the double-precision
  \<^verbatim>\<open>Math.floor(offset * (bytesRead / sampleLines))\<close> of the estimated read.
\<close>

record disk =
  readFile :: "string \<Rightarrow> string option"
  getMimeType :: "string \<Rightarrow> string"
  isImageFile :: "string \<Rightarrow> bool"
  base64 :: "string \<Rightarrow> string"
  fileReadLineLimit :: "int option"
  readSlow :: bool
  estimateBytes :: "int \<Rightarrow> nat \<Rightarrow> nat \<Rightarrow> int"

record FileResult =
  content :: string
  mimeType :: string
  isImage :: bool

definition getFileLineCount :: "disk \<Rightarrow> string \<Rightarrow> nat option" where
  "getFileLineCount d filePath =
     (case readFile d filePath of
        None \<Rightarrow> None
      | Some bytes \<Rightarrow> if length bytes < LINE_COUNT_LIMIT then Some (countLines bytes) else None)"

definition getDefaultReadLength :: "disk \<Rightarrow> int" where
  "getDefaultReadLength d = (case fileReadLineLimit d of Some n \<Rightarrow> n | None \<Rightarrow> 1000)"

definition generateEnhancedStatusMessage :: "nat \<Rightarrow> int \<Rightarrow> nat option \<Rightarrow> bool \<Rightarrow> string" where
  "generateEnhancedStatusMessage readLines offset totalLines isNegativeOffset =
     (if isNegativeOffset then
        (case totalLines of
           Some tot \<Rightarrow>
             ''[Reading last '' @ natToString readLines @ '' lines (total: '' @ natToString tot
               @ '' lines)]''
         | None \<Rightarrow> ''[Reading last '' @ natToString readLines @ '' lines]'')
      else
        (case totalLines of
           Some tot \<Rightarrow>
             (let endLine = offset + int readLines;
                  remainingLines = max 0 (int tot - endLine)
              in if offset = 0 then
                   ''[Reading '' @ natToString readLines @ '' lines from start (total: ''
                     @ natToString tot @ '' lines, '' @ numToString remainingLines
                     @ '' remaining)]''
                 else
                   ''[Reading '' @ natToString readLines @ '' lines from line ''
                     @ numToString offset @ '' (total: '' @ natToString tot @ '' lines, ''
                     @ numToString remainingLines @ '' remaining)]'')
         | None \<Rightarrow>
             if offset = 0 then ''[Reading '' @ natToString readLines @ '' lines from start]''
             else ''[Reading '' @ natToString readLines @ '' lines from line ''
                    @ numToString offset @ '']''))"

definition render :: "bool \<Rightarrow> string \<Rightarrow> string list \<Rightarrow> string \<Rightarrow> FileResult" where
  \<comment> \<open>the tail shared by the four readers: the status line, a blank line, the lines joined\<close>
  "render includeStatusMessage status result mime =
     \<lparr> content = (if includeStatusMessage
                   then status @ [LF, LF] @ js_join [LF] result
                   else js_join [LF] result),
       mimeType = mime, isImage = False \<rparr>"

subsection \<open>\<^verbatim>\<open>readLastNLinesReverse\<close>\<close>

function reverseLoop ::
  "string \<Rightarrow> nat \<Rightarrow> nat \<Rightarrow> string list \<Rightarrow> string \<Rightarrow> nat \<times> string list \<times> string" where
  \<comment> \<open>the file's bytes, \<open>n\<close>, then the loop's \<open>position\<close>, \<open>lines\<close> and \<open>partialLine\<close>\<close>
  "reverseLoop bytes n position lines partialLine =
     (if position > 0 \<and> length lines < n then
        (let readSize = min CHUNK_SIZE position;
             position' = position - readSize;
             chunk = take readSize (drop position' bytes);
             text = chunk @ partialLine
         in (case js_split LF text of
               [] \<Rightarrow> reverseLoop bytes n position' lines []
             | first # chunkLines \<Rightarrow> reverseLoop bytes n position' (chunkLines @ lines) first))
      else (position, lines, partialLine))"
  by pat_completeness auto
termination
  by (relation "measure (\<lambda>(bytes, n, position, lines, partialLine). position)")
    (auto simp: CHUNK_SIZE_def)

declare reverseLoop.simps [simp del]

definition readLastNLinesReverse_lines :: "string \<Rightarrow> nat \<Rightarrow> string list" where
  "readLastNLinesReverse_lines bytes n =
     (case reverseLoop bytes n (length bytes) [] [] of
        (position, lines, partialLine) \<Rightarrow>
          (let lines' = (if position = 0 \<and> partialLine \<noteq> [] then partialLine # lines else lines)
           in js_slice lines' (- int n) (int (length lines'))))"

definition readLastNLinesReverse ::
  "string \<Rightarrow> nat \<Rightarrow> string \<Rightarrow> bool \<Rightarrow> nat option \<Rightarrow> FileResult" where
  "readLastNLinesReverse bytes n mime includeStatusMessage fileTotalLines =
     (let result = readLastNLinesReverse_lines bytes n
      in render includeStatusMessage
           (generateEnhancedStatusMessage (length result) (- int n) fileTotalLines True)
           result mime)"

subsection \<open>\<^verbatim>\<open>readFromEndWithReadline\<close>\<close>

fun circularLoop ::
  "nat \<Rightarrow> string option list \<Rightarrow> nat \<Rightarrow> nat \<Rightarrow> string list \<Rightarrow> string option list \<times> nat \<times> nat" where
  \<comment> \<open>\<open>requestedLines\<close>, then \<open>buffer\<close> (\<open>None\<close> is a slot never written),
     \<open>bufferIndex\<close>, \<open>totalLines\<close> and the lines still to come\<close>
  "circularLoop requestedLines buffer bufferIndex totalLines [] = (buffer, bufferIndex, totalLines)"
| "circularLoop requestedLines buffer bufferIndex totalLines (line # rest) =
     circularLoop requestedLines (buffer[bufferIndex := Some line])
       ((bufferIndex + 1) mod requestedLines) (totalLines + 1) rest"

definition readFromEndWithReadline_lines :: "string \<Rightarrow> nat \<Rightarrow> string list" where
  "readFromEndWithReadline_lines bytes requestedLines =
     (case circularLoop requestedLines (replicate requestedLines None) 0 0 (readline bytes) of
        (buffer, bufferIndex, totalLines) \<Rightarrow>
          if totalLines \<ge> requestedLines
            then List.map_filter (\<lambda>slot. slot) (drop bufferIndex buffer @ take bufferIndex buffer)
          else map (\<lambda>slot. case slot of Some line \<Rightarrow> line | None \<Rightarrow> [])
                 (take totalLines buffer))"

definition readFromEndWithReadline ::
  "string \<Rightarrow> nat \<Rightarrow> string \<Rightarrow> bool \<Rightarrow> nat option \<Rightarrow> FileResult" where
  "readFromEndWithReadline bytes requestedLines mime includeStatusMessage fileTotalLines =
     (let result = readFromEndWithReadline_lines bytes requestedLines
      in render includeStatusMessage
           (generateEnhancedStatusMessage (length result) (- int requestedLines) fileTotalLines True)
           result mime)"

subsection \<open>\<^verbatim>\<open>readFromStartWithReadline\<close>\<close>

fun forwardLoop :: "int \<Rightarrow> int \<Rightarrow> string list \<Rightarrow> nat \<Rightarrow> string list \<Rightarrow> string list" where
  \<comment> \<open>\<open>offset\<close>, \<open>length\<close>, then \<open>result\<close>, \<open>lineNumber\<close> and the lines still to come\<close>
  "forwardLoop offset len result lineNumber [] = result"
| "forwardLoop offset len result lineNumber (line # rest) =
     (let result' = (if int lineNumber \<ge> offset \<and> int (length result) < len
                     then result @ [line] else result)
      in if int (length result') \<ge> len then result'
         else forwardLoop offset len result' (lineNumber + 1) rest)"

definition readFromStartWithReadline_lines :: "string \<Rightarrow> int \<Rightarrow> int \<Rightarrow> string list" where
  "readFromStartWithReadline_lines bytes offset len = forwardLoop offset len [] 0 (readline bytes)"

definition readFromStartWithReadline ::
  "string \<Rightarrow> int \<Rightarrow> int \<Rightarrow> string \<Rightarrow> bool \<Rightarrow> nat option \<Rightarrow> FileResult" where
  "readFromStartWithReadline bytes offset len mime includeStatusMessage fileTotalLines =
     (let result = readFromStartWithReadline_lines bytes offset len
      in render includeStatusMessage
           (generateEnhancedStatusMessage (length result) offset fileTotalLines False)
           result mime)"

subsection \<open>\<^verbatim>\<open>readFromEstimatedPosition\<close>\<close>

fun sampleLoop :: "nat \<Rightarrow> nat \<Rightarrow> string list \<Rightarrow> nat \<times> nat" where
  \<comment> \<open>\<open>sampleLines\<close>, \<open>bytesRead\<close> and the lines still to come\<close>
  "sampleLoop sampleLines bytesRead [] = (sampleLines, bytesRead)"
| "sampleLoop sampleLines bytesRead (line # rest) =
     (let bytesRead' = bytesRead + length line + 1
      in if bytesRead' \<ge> SAMPLE_SIZE then (sampleLines + 1, bytesRead')
         else sampleLoop (sampleLines + 1) bytesRead' rest)"

definition readFromEstimatedPosition ::
  "disk \<Rightarrow> string \<Rightarrow> int \<Rightarrow> int \<Rightarrow> string \<Rightarrow> bool \<Rightarrow> nat option \<Rightarrow> FileResult" where
  "readFromEstimatedPosition d bytes offset len mime includeStatusMessage fileTotalLines =
     (case sampleLoop 0 0 (readline bytes) of
        (sampleLines, bytesRead) \<Rightarrow>
          if sampleLines = 0
            then readFromStartWithReadline bytes offset len mime includeStatusMessage fileTotalLines
          else
            (let estimatedBytePosition = estimateBytes d offset bytesRead sampleLines;
                 startPosition = min estimatedBytePosition (int (length bytes));
                 lines = readline (drop (nat startPosition) bytes);
                 kept = (if startPosition > 0 then drop 1 lines else lines);
                 result = take (nat len) kept
             in render includeStatusMessage
                  (generateEnhancedStatusMessage (length result) offset fileTotalLines False)
                  result mime))"

subsection \<open>\<^verbatim>\<open>readFileWithSmartPositioning\<close> and \<^verbatim>\<open>readFileFromDisk\<close>\<close>

definition readFileWithSmartPositioning ::
  "disk \<Rightarrow> string \<Rightarrow> int \<Rightarrow> int \<Rightarrow> string \<Rightarrow> bool \<Rightarrow> fs_error + FileResult" where
  "readFileWithSmartPositioning d filePath offset len mime includeStatusMessage =
     (case readFile d filePath of
        None \<Rightarrow> Inl (ReadFailed filePath)
      | Some bytes \<Rightarrow>
          (let fileSize = length bytes;
               totalLines = getFileLineCount d filePath
           in if offset < 0 then
                (let requestedLines = nat (abs offset)
                 in if fileSize > LARGE_FILE_THRESHOLD \<and> int requestedLines \<le> SMALL_READ_THRESHOLD
                      then Inr (readLastNLinesReverse bytes requestedLines mime
                                  includeStatusMessage totalLines)
                    else Inr (readFromEndWithReadline bytes requestedLines mime
                                includeStatusMessage totalLines))
              else if fileSize < LARGE_FILE_THRESHOLD \<or> offset = 0 then
                Inr (readFromStartWithReadline bytes offset len mime includeStatusMessage totalLines)
              else if offset > DEEP_OFFSET_THRESHOLD then
                Inr (readFromEstimatedPosition d bytes offset len mime includeStatusMessage
                       totalLines)
              else
                Inr (readFromStartWithReadline bytes offset len mime includeStatusMessage
                       totalLines)))"

definition readFileFromDisk :: "host \<Rightarrow> disk \<Rightarrow> string \<Rightarrow> int \<Rightarrow> int option \<Rightarrow> fs_error + FileResult" where
  "readFileFromDisk h d filePath offset len0 =
     (if filePath = [] then Inl InvalidFilePath
      else
        (let len = (case len0 of None \<Rightarrow> getDefaultReadLength d | Some l \<Rightarrow> l)
         in case validatePath h filePath of
              Inl e \<Rightarrow> Inl e
            | Inr validPath \<Rightarrow>
                (let mime = getMimeType d validPath;
                     image = isImageFile d mime;
                     readOperation =
                       (if image then
                          (case readFile d validPath of
                             None \<Rightarrow> Inl (ReadFailed validPath)
                           | Some buffer \<Rightarrow>
                               Inr \<lparr> content = base64 d buffer, mimeType = mime, isImage = image \<rparr>)
                        else
                          (case readFileWithSmartPositioning d validPath offset len mime True of
                             Inr r \<Rightarrow> Inr r
                           | Inl e \<Rightarrow>
                               (case readFile d validPath of
                                  None \<Rightarrow> Inl (ReadFailed validPath)
                                | Some buffer \<Rightarrow>
                                    Inr \<lparr> content = ''Binary file content (base64 encoded):''
                                                    @ [LF] @ base64 d buffer,
                                          mimeType = ''text/plain'', isImage = False \<rparr>)))
                 in withTimeout (readSlow d) ReadTimedOut (Some readOperation))))"

section \<open>Reading for internal operations\<close>

text \<open>
  \<^verbatim>\<open>fs.readFile(path, 'utf8')\<close> decodes the file's bytes into a JavaScript string. The
  string is written here in UTF-8 again, so that it can be compared with the bytes of the
  file: a well-formed sequence is kept as it is, and every ill-formed one becomes the
  replacement character U+FFFD (\<^verbatim>\<open>EF BF BD\<close>), one for each maximal part of a sequence,
  the byte that ended the part being read again. A byte order mark is kept. The state of
  the decoder is the number of bytes still needed, the bounds of the next byte and the
  bytes of the sequence seen so far.
\<close>

definition REPLACEMENT :: string where
  "REPLACEMENT = [CHR 0xEF, CHR 0xBF, CHR 0xBD]"

definition byte :: "char \<Rightarrow> nat" where
  "byte c = of_char c"

fun utf8Loop :: "nat \<Rightarrow> nat \<Rightarrow> nat \<Rightarrow> string \<Rightarrow> string \<Rightarrow> string" where
  "utf8Loop needed lower upper seen [] = (if needed = 0 then [] else REPLACEMENT)"
| "utf8Loop needed lower upper seen (b # bs) =
     (if needed = 0 then
        (if byte b \<le> 0x7F then b # utf8Loop 0 0x80 0xBF [] bs
         else if 0xC2 \<le> byte b \<and> byte b \<le> 0xDF then utf8Loop 1 0x80 0xBF [b] bs
         else if 0xE0 \<le> byte b \<and> byte b \<le> 0xEF then
           utf8Loop 2 (if byte b = 0xE0 then 0xA0 else 0x80) (if byte b = 0xED then 0x9F else 0xBF)
             [b] bs
         else if 0xF0 \<le> byte b \<and> byte b \<le> 0xF4 then
           utf8Loop 3 (if byte b = 0xF0 then 0x90 else 0x80) (if byte b = 0xF4 then 0x8F else 0xBF)
             [b] bs
         else REPLACEMENT @ utf8Loop 0 0x80 0xBF [] bs)
      else if byte b < lower \<or> upper < byte b then
        REPLACEMENT @ utf8Loop 0 0x80 0xBF [] (b # bs)
      else if needed = 1 then seen @ [b] @ utf8Loop 0 0x80 0xBF [] bs
      else utf8Loop (needed - 1) 0x80 0xBF (seen @ [b]) bs)"

definition decodeUtf8 :: "string \<Rightarrow> string" where
  "decodeUtf8 bytes = utf8Loop 0 0x80 0xBF [] bytes"

definition MAX_SAFE_INTEGER :: int where
  "MAX_SAFE_INTEGER = 9007199254740991"

fun splitLinesLoop :: "string list \<Rightarrow> string \<Rightarrow> string \<Rightarrow> string list" where
  \<comment> \<open>the loop of \<^verbatim>\<open>splitLinesPreservingEndings\<close>: the lines so far, the current line, the
     characters still to read\<close>
  "splitLinesLoop lines currentLine [] =
     (if currentLine \<noteq> [] then lines @ [currentLine] else lines)"
| "splitLinesLoop lines currentLine [c] =
     (if c = LF \<or> c = CR then lines @ [currentLine @ [c]]
      else splitLinesLoop lines (currentLine @ [c]) [])"
| "splitLinesLoop lines currentLine (c # d # cs) =
     (if c = LF then splitLinesLoop (lines @ [currentLine @ [c]]) [] (d # cs)
      else if c = CR then
        (if d = LF then splitLinesLoop (lines @ [currentLine @ [c] @ [d]]) [] cs
         else splitLinesLoop (lines @ [currentLine @ [c]]) [] (d # cs))
      else splitLinesLoop lines (currentLine @ [c]) (d # cs))"

definition splitLinesPreservingEndings :: "string \<Rightarrow> string list" where
  "splitLinesPreservingEndings text =
     (if text = [] then [[]] else splitLinesLoop [] [] text)"

definition readFileInternal :: "host \<Rightarrow> disk \<Rightarrow> string \<Rightarrow> int \<Rightarrow> int option \<Rightarrow> fs_error + string" where
  "readFileInternal h d filePath offset len0 =
     (let len = (case len0 of None \<Rightarrow> getDefaultReadLength d | Some l \<Rightarrow> l)
      in case validatePath h filePath of
           Inl e \<Rightarrow> Inl e
         | Inr validPath \<Rightarrow>
             if isImageFile d (getMimeType d validPath) then Inl ImageNotText
             else (case readFile d validPath of
                     None \<Rightarrow> Inl (ReadFailed validPath)
                   | Some bytes \<Rightarrow>
                       (let text = decodeUtf8 bytes
                        in if offset = 0 \<and> len \<ge> MAX_SAFE_INTEGER then Inr text
                           else (let lines = splitLinesPreservingEndings text;
                                     selectedLines = js_slice lines offset (offset + len)
                                 in Inr (concat selectedLines)))))"

section \<open>Content search\<close>

text \<open>
  \<^verbatim>\<open>src/tools/search.ts\<close>. A search result is \<^verbatim>\<open>{file, line, match}\<close>. The options
  are the ones of \<^verbatim>\<open>searchTextInFiles\<close>; an absent option is \<open>None\<close>.
\<close>

record SearchResult =
  sr_file :: string
  sr_line :: int
  sr_match :: string

record search_options =
  rootPath :: string
  pattern :: string
  filePattern :: "string option"
  ignoreCase :: "bool option"
  maxResults :: "int option"
  includeHidden :: "bool option"
  contextLines :: "int option"

datatype search_error =
    RipgrepNotAvailable
  | RipgrepProcessError string
  | RipgrepExit "int option" string
  | PathError fs_error
  | RegExpSyntaxError string
  | SearchTimedOut int

text \<open>
  A directory as \<^verbatim>\<open>fs.readdir(..., {withFileTypes: true})\<close> lists it, with what lies
  below: a file with its content (\<open>None\<close> when it cannot be read), a directory with
  its entries (none when it cannot be listed), or an entry that is neither.
\<close>

datatype dirent =
    FileEntry string "string option"
  | DirEntry string "dirent list"
  | OtherEntry string

fun entryName :: "dirent \<Rightarrow> string" where
  "entryName (FileEntry name text) = name"
| "entryName (DirEntry name entries) = name"
| "entryName (OtherEntry name) = name"

fun isFile :: "dirent \<Rightarrow> bool" where
  "isFile (FileEntry name text) = True"
| "isFile e = False"

fun isDirectory :: "dirent \<Rightarrow> bool" where
  "isDirectory (DirEntry name entries) = True"
| "isDirectory e = False"

subsection \<open>The external engine\<close>

text \<open>
  One line of ripgrep's \<^verbatim>\<open>--json\<close> output, as \<^verbatim>\<open>JSON.parse\<close> reads it: a match with
  its path, its line number and the texts of its submatches, a context line with its
  text, a message of another type, or a line that does not parse. The process ends
  with an \<^verbatim>\<open>error\<close> event, or closes with an exit code (\<open>None\<close> when a signal ended
  it) after printing its lines, or has not closed when the 30 second timer kills it.
  The engine is a function from the command line to what the process does.
\<close>

datatype rg_message =
    RgMatch "string option" "int option" "string list"
  | RgContext "string option" "int option" string
  | RgOther
  | RgUnparsable

datatype rg_outcome =
    RgErrorEvent string
  | RgClosed "int option" "rg_message list" string
  | RgTimedOut

definition textOrUnknown :: "string option \<Rightarrow> string" where
  \<comment> \<open>\<^verbatim>\<open>result.data.path?.text || 'unknown'\<close>\<close>
  "textOrUnknown t = (case t of None \<Rightarrow> ''unknown'' | Some f \<Rightarrow> if f = [] then ''unknown'' else f)"

definition numberOrZero :: "int option \<Rightarrow> int" where
  \<comment> \<open>\<^verbatim>\<open>result.data.line_number || 0\<close>\<close>
  "numberOrZero n = (case n of None \<Rightarrow> 0 | Some k \<Rightarrow> k)"

fun decodeMessage :: "int \<Rightarrow> rg_message \<Rightarrow> SearchResult list" where
  \<comment> \<open>the body of the loop over the lines of the output\<close>
  "decodeMessage ctx (RgMatch f n submatches) =
     map (\<lambda>t. \<lparr> sr_file = textOrUnknown f, sr_line = numberOrZero n, sr_match = t \<rparr>)
       (filter (\<lambda>t. t \<noteq> []) submatches)"
| "decodeMessage ctx (RgContext f n t) =
     (if ctx > 0 \<and> t \<noteq> []
      then [\<lparr> sr_file = textOrUnknown f, sr_line = numberOrZero n, sr_match = js_trim t \<rparr>]
      else [])"
| "decodeMessage ctx RgOther = []"
| "decodeMessage ctx RgUnparsable = []"

definition decodeOutput :: "int \<Rightarrow> rg_message list \<Rightarrow> SearchResult list" where
  "decodeOutput ctx messages = concat (map (decodeMessage ctx) messages)"

definition optOr :: "'a option \<Rightarrow> 'a \<Rightarrow> 'a" where
  \<comment> \<open>an option's value, or the default of the destructuring\<close>
  "optOr v dflt = (case v of None \<Rightarrow> dflt | Some x \<Rightarrow> x)"

definition rgArgs :: "search_options \<Rightarrow> string \<Rightarrow> string list" where
  "rgArgs opts validPath =
     [''--json'', ''--line-number'']
     @ (if optOr (ignoreCase opts) True then [''-i''] else [])
     @ (if optOr (maxResults opts) 1000 \<noteq> 0
        then [''-m'', numToString (optOr (maxResults opts) 1000)] else [])
     @ (if optOr (includeHidden opts) False then [''--hidden''] else [])
     @ (if optOr (contextLines opts) 0 > 0
        then [''-C'', numToString (optOr (contextLines opts) 0)] else [])
     @ (case filePattern opts of
          None \<Rightarrow> []
        | Some g \<Rightarrow> if g = [] then [] else [''-g'', g])
     @ [pattern opts, validPath]"

definition searchCode ::
  "host \<Rightarrow> bool \<Rightarrow> (string list \<Rightarrow> rg_outcome) \<Rightarrow> search_options
     \<Rightarrow> search_error + SearchResult list" where
  \<comment> \<open>\<open>isRipgrepAvailable\<close> is what \<^verbatim>\<open>checkRipgrepAvailability\<close> answers\<close>
  "searchCode h isRipgrepAvailable rg opts =
     (if \<not> isRipgrepAvailable then Inl RipgrepNotAvailable
      else
        (case validatePath h (rootPath opts) of
           Inl e \<Rightarrow> Inl (PathError e)
         | Inr validPath \<Rightarrow>
             (case rg (rgArgs opts validPath) of
                RgErrorEvent msg \<Rightarrow> Inl (RipgrepProcessError msg)
              | RgTimedOut \<Rightarrow> Inr []
              | RgClosed code messages stderr \<Rightarrow>
                  if code = Some 0 \<or> code = Some 1
                    then Inr (decodeOutput (optOr (contextLines opts) 0) messages)
                  else Inl (RipgrepExit code stderr))))"

subsection \<open>The fallback walker\<close>

text \<open>
  What the walker is given once its options are read: the host for \<^verbatim>\<open>validatePath\<close>,
  the compiled pattern and file-name pattern, and the bounds.
\<close>

record walker =
  wk_host :: host
  wk_regex :: "string \<Rightarrow> bool"
  wk_fileRegex :: "(string \<Rightarrow> bool) option"
  wk_maxResults :: int
  wk_excludeDirs :: "string list"
  wk_contextLines :: int

definition contextResults :: "string \<Rightarrow> string list \<Rightarrow> int \<Rightarrow> int \<Rightarrow> SearchResult list" where
  \<comment> \<open>the loop \<^verbatim>\<open>for (j = startIdx; j <= endIdx; j++)\<close> around the match at index \<open>i\<close>\<close>
  "contextResults fullPath lines i ctx =
     (let startIdx = max 0 (i - ctx);
          endIdx = min (int (length lines) - 1) (i + ctx)
      in map (\<lambda>j. \<lparr> sr_file = fullPath, sr_line = j + 1, sr_match = js_trim (lines ! nat j) \<rparr>)
           (filter (\<lambda>j. j \<noteq> i) [startIdx..endIdx]))"

fun scanLines ::
  "walker \<Rightarrow> string \<Rightarrow> string list \<Rightarrow> int \<Rightarrow> string list \<Rightarrow> SearchResult list
     \<Rightarrow> SearchResult list" where
  \<comment> \<open>the loop over the lines of one file: all its lines, the index \<open>i\<close>, the lines from
     \<open>i\<close> on, the results so far\<close>
  "scanLines w fullPath lines i [] results = results"
| "scanLines w fullPath lines i (l # rest) results =
     (if wk_regex w l then
        (let results1 = results @ [\<lparr> sr_file = fullPath, sr_line = i + 1, sr_match = js_trim l \<rparr>];
             results2 = (if wk_contextLines w > 0
                         then results1 @ contextResults fullPath lines i (wk_contextLines w)
                         else results1)
         in if int (length results2) \<ge> wk_maxResults w then results2
            else scanLines w fullPath lines (i + 1) rest results2)
      else scanLines w fullPath lines (i + 1) rest results)"

fun searchDir :: "walker \<Rightarrow> string \<Rightarrow> dirent list \<Rightarrow> SearchResult list \<Rightarrow> SearchResult list"
  and searchEntries ::
    "walker \<Rightarrow> string \<Rightarrow> dirent list \<Rightarrow> SearchResult list \<Rightarrow> SearchResult list" where
  "searchDir w dirPath entries results =
     (if int (length results) \<ge> wk_maxResults w then results
      else searchEntries w dirPath entries results)"
| "searchEntries w dirPath [] results = results"
| "searchEntries w dirPath (entry # rest) results =
     (if int (length results) \<ge> wk_maxResults w then results
      else
        (let fullPath = path_join (path (wk_host w)) [dirPath, entryName entry]
         in case validatePath (wk_host w) fullPath of
              Inl e \<Rightarrow> searchEntries w dirPath rest results
            | Inr v \<Rightarrow>
                (case entry of
                   DirEntry name below \<Rightarrow>
                     if name \<notin> set (wk_excludeDirs w)
                       then searchEntries w dirPath rest (searchDir w fullPath below results)
                     else searchEntries w dirPath rest results
                 | FileEntry name text \<Rightarrow>
                     if (case wk_fileRegex w of None \<Rightarrow> True | Some t \<Rightarrow> t name) then
                       (case text of
                          None \<Rightarrow> searchEntries w dirPath rest results
                        | Some c \<Rightarrow>
                            searchEntries w dirPath rest
                              (scanLines w fullPath (js_split LF c) 0 (js_split LF c) results))
                     else searchEntries w dirPath rest results
                 | OtherEntry name \<Rightarrow> searchEntries w dirPath rest results)))"

text \<open>
  \<^verbatim>\<open>new RegExp(pattern, flags)\<close> is the JavaScript engine's: \<open>regexp pattern i\<close> is the
  compiled test, or \<open>None\<close> when the pattern is a syntax error. \<open>tree\<close> gives the
  entries of the root directory.
\<close>

definition walkerOf ::
  "host \<Rightarrow> (string \<Rightarrow> bool) \<Rightarrow> (string \<Rightarrow> bool) option \<Rightarrow> search_options
     \<Rightarrow> string list option \<Rightarrow> walker" where
  "walkerOf h regex fileRegex opts excludeDirs =
     \<lparr> wk_host = h, wk_regex = regex, wk_fileRegex = fileRegex,
       wk_maxResults = optOr (maxResults opts) 1000,
       wk_excludeDirs = optOr excludeDirs [''node_modules'', ''.git''],
       wk_contextLines = optOr (contextLines opts) 0 \<rparr>"

definition searchCodeFallback ::
  "host \<Rightarrow> (string \<Rightarrow> bool \<Rightarrow> (string \<Rightarrow> bool) option) \<Rightarrow> search_options \<Rightarrow> string list option
     \<Rightarrow> (string \<Rightarrow> dirent list) \<Rightarrow> search_error + SearchResult list" where
  "searchCodeFallback h regexp opts excludeDirs tree =
     (case validatePath h (rootPath opts) of
        Inl e \<Rightarrow> Inl (PathError e)
      | Inr validPath \<Rightarrow>
          (case regexp (pattern opts) (optOr (ignoreCase opts) True) of
             None \<Rightarrow> Inl (RegExpSyntaxError (pattern opts))
           | Some regex \<Rightarrow>
               (case (case filePattern opts of
                        None \<Rightarrow> Some None
                      | Some g \<Rightarrow>
                          if g = [] then Some None
                          else (case regexp g False of None \<Rightarrow> None | Some t \<Rightarrow> Some (Some t))) of
                  None \<Rightarrow> Inl (RegExpSyntaxError (optOr (filePattern opts) []))
                | Some fileRegex \<Rightarrow>
                    Inr (searchDir (walkerOf h regex fileRegex opts excludeDirs)
                          validPath (tree validPath) []))))"

definition searchTextInFiles ::
  "host \<Rightarrow> bool \<Rightarrow> (string list \<Rightarrow> rg_outcome) \<Rightarrow> (string \<Rightarrow> bool \<Rightarrow> (string \<Rightarrow> bool) option)
     \<Rightarrow> search_options \<Rightarrow> (string \<Rightarrow> dirent list) \<Rightarrow> search_error + SearchResult list" where
  "searchTextInFiles h isRipgrepAvailable rg regexp opts tree =
     (case searchCode h isRipgrepAvailable rg opts of
        Inr results \<Rightarrow> Inr results
      | Inl e \<Rightarrow> searchCodeFallback h regexp opts (Some [''node_modules'', ''.git'', ''dist'']) tree)"

section \<open>The availability probe\<close>

text \<open>
  \<^verbatim>\<open>checkRipgrepAvailability\<close> and the module variable \<^verbatim>\<open>ripgrepAvailable\<close>. Node runs
  one handler at a time, so the process is a state and the handlers that run on it, in
  the order the event loop takes them: a caller enters the check (and the spawn works, or
  throws), the probe numbered \<open>k\<close> closes with an exit code, emits \<^verbatim>\<open>error\<close>, or
  its 2 second timer runs. The timer is never cleared, so it runs for every probe.
  \<open>pr_writes\<close> lists the values assigned to the variable, oldest first.
\<close>

record probe_state =
  ripgrepAvailable :: "bool option"
  pr_spawned :: nat
  pr_closed :: "nat list"
  pr_errored :: "nat list"
  pr_timed :: "nat list"
  pr_writes :: "bool list"

datatype probe_event =
    Invoke
  | InvokeSpawnThrows
  | ProbeClose nat "int option"
  | ProbeError nat
  | ProbeTimer nat

definition probe_init :: probe_state where
  "probe_init =
     \<lparr> ripgrepAvailable = None, pr_spawned = 0, pr_closed = [], pr_errored = [], pr_timed = [],
       pr_writes = [] \<rparr>"

definition assign :: "bool \<Rightarrow> probe_state \<Rightarrow> probe_state" where
  "assign b s = s\<lparr> ripgrepAvailable := Some b, pr_writes := pr_writes s @ [b] \<rparr>"

definition isProbe :: "probe_state \<Rightarrow> nat \<Rightarrow> bool" where
  "isProbe s k = (1 \<le> k \<and> k \<le> pr_spawned s)"

fun probe_step :: "probe_event \<Rightarrow> probe_state \<Rightarrow> probe_state option" where
  \<comment> \<open>\<open>None\<close>: the handler cannot run in this state\<close>
  "probe_step Invoke s =
     (if ripgrepAvailable s \<noteq> None then Some s
      else Some (s\<lparr> pr_spawned := pr_spawned s + 1 \<rparr>))"
| "probe_step InvokeSpawnThrows s =
     (if ripgrepAvailable s \<noteq> None then Some s else Some (assign False s))"
| "probe_step (ProbeClose k code) s =
     (if isProbe s k \<and> k \<notin> set (pr_closed s)
      then Some (assign (code = Some 0) (s\<lparr> pr_closed := k # pr_closed s \<rparr>))
      else None)"
| "probe_step (ProbeError k) s =
     (if isProbe s k \<and> k \<notin> set (pr_errored s)
      then Some (assign False (s\<lparr> pr_errored := k # pr_errored s \<rparr>))
      else None)"
| "probe_step (ProbeTimer k) s =
     (if isProbe s k \<and> k \<notin> set (pr_timed s)
      then Some (assign False (s\<lparr> pr_timed := k # pr_timed s \<rparr>))
      else None)"

fun probe_run :: "probe_event list \<Rightarrow> probe_state \<Rightarrow> probe_state option" where
  "probe_run [] s = Some s"
| "probe_run (e # es) s = (case probe_step e s of None \<Rightarrow> None | Some s' \<Rightarrow> probe_run es s')"

section \<open>The filename walker\<close>

text \<open>
  \<^verbatim>\<open>searchFiles\<close> reads the clock and races a timer. The schedule says what the event
  loop does on one call: \<open>timerFires k\<close>, whether the timeout's callback runs while the
  call waits at its await number \<open>k\<close> (number 0 is the validation of the root, then one
  for each \<^verbatim>\<open>readdir\<close> and each \<^verbatim>\<open>validatePath\<close> of an entry), and \<open>elapsed k\<close>, the
  value of \<^verbatim>\<open>Date.now() - startTime\<close> at the deadline check number \<open>k\<close>.
\<close>

record schedule =
  timerFires :: "nat \<Rightarrow> bool"
  elapsed :: "nat \<Rightarrow> int"

record walk =
  wl_results :: "string list"
  wl_cancelled :: bool
  wl_awaits :: nat
  wl_checks :: nat

record finder =
  fd_host :: host
  fd_schedule :: schedule
  fd_pattern :: string
  fd_maxResults :: int
  fd_maxDepth :: int
  fd_timeoutMs :: int
  fd_excludeDirs :: "string list"


definition awaitPoint :: "finder \<Rightarrow> walk \<Rightarrow> string list + walk" where
  \<comment> \<open>\<open>Inl\<close>: the timer's callback runs here and rejects the race, with the results
     found so far\<close>
  "awaitPoint fd w =
     (if timerFires (fd_schedule fd) (wl_awaits w) then Inl (wl_results w)
      else Inr (w\<lparr> wl_awaits := wl_awaits w + 1 \<rparr>))"

definition nameMatches :: "finder \<Rightarrow> string \<Rightarrow> bool" where
  "nameMatches fd name =
     (if win32 (fd_host fd) then js_includes (js_toLowerCase name) (js_toLowerCase (fd_pattern fd))
      else js_includes name (fd_pattern fd))"

definition pushIfMatch :: "finder \<Rightarrow> string \<Rightarrow> string \<Rightarrow> walk \<Rightarrow> walk" where
  "pushIfMatch fd name fullPath w =
     (if nameMatches fd name then w\<lparr> wl_results := wl_results w @ [fullPath] \<rparr> else w)"

fun fileLoop :: "finder \<Rightarrow> string \<Rightarrow> dirent list \<Rightarrow> walk \<Rightarrow> string list + walk" where
  \<comment> \<open>\<^verbatim>\<open>for (const entry of files)\<close>; an entry that is not a file is not in \<^verbatim>\<open>files\<close>\<close>
  "fileLoop fd currentPath [] w = Inr w"
| "fileLoop fd currentPath (entry # rest) w =
     (if \<not> isFile entry then fileLoop fd currentPath rest w
      else if wl_cancelled w \<or> int (length (wl_results w)) \<ge> fd_maxResults fd then Inr w
      else
        (let fullPath = path_join (path (fd_host fd)) [currentPath, entryName entry]
         in case awaitPoint fd w of
              Inl partial \<Rightarrow> Inl partial
            | Inr w1 \<Rightarrow>
                (case validatePath (fd_host fd) fullPath of
                   Inl e \<Rightarrow> fileLoop fd currentPath rest w1
                 | Inr v \<Rightarrow>
                     fileLoop fd currentPath rest (pushIfMatch fd (entryName entry) fullPath w1))))"

fun search :: "finder \<Rightarrow> string \<Rightarrow> dirent list \<Rightarrow> int \<Rightarrow> walk \<Rightarrow> string list + walk"
  and dirLoop :: "finder \<Rightarrow> string \<Rightarrow> dirent list \<Rightarrow> int \<Rightarrow> walk \<Rightarrow> string list + walk" where
  "search fd currentPath entries depth w =
     (if wl_cancelled w \<or> int (length (wl_results w)) \<ge> fd_maxResults fd \<or> depth > fd_maxDepth fd
        then Inr w
      else if elapsed (fd_schedule fd) (wl_checks w) > fd_timeoutMs fd
        then Inr (w\<lparr> wl_cancelled := True, wl_checks := wl_checks w + 1 \<rparr>)
      else
        (case awaitPoint fd (w\<lparr> wl_checks := wl_checks w + 1 \<rparr>) of
           Inl partial \<Rightarrow> Inl partial
         | Inr w1 \<Rightarrow>
             (case fileLoop fd currentPath entries w1 of
                Inl partial \<Rightarrow> Inl partial
              | Inr w2 \<Rightarrow> dirLoop fd currentPath entries depth w2)))"
| "dirLoop fd currentPath [] depth w = Inr w"
| "dirLoop fd currentPath (entry # rest) depth w =
     (case entry of
        DirEntry name below \<Rightarrow>
          if wl_cancelled w \<or> int (length (wl_results w)) \<ge> fd_maxResults fd
             \<or> depth \<ge> fd_maxDepth fd
            then Inr w
          else if name \<in> set (fd_excludeDirs fd) then dirLoop fd currentPath rest depth w
          else
            (let fullPath = path_join (path (fd_host fd)) [currentPath, name]
             in case awaitPoint fd w of
                  Inl partial \<Rightarrow> Inl partial
                | Inr w1 \<Rightarrow>
                    (case validatePath (fd_host fd) fullPath of
                       Inl e \<Rightarrow> dirLoop fd currentPath rest depth w1
                     | Inr v \<Rightarrow>
                         (case search fd fullPath below (depth + 1)
                                 (pushIfMatch fd name fullPath w1) of
                            Inl partial \<Rightarrow> Inl partial
                          | Inr w2 \<Rightarrow> dirLoop fd currentPath rest depth w2)))
      | FileEntry name text \<Rightarrow> dirLoop fd currentPath rest depth w
      | OtherEntry name \<Rightarrow> dirLoop fd currentPath rest depth w)"




section \<open>The specification's words\<close>

text \<open>
  The canonical form of a path, the platform's case policy and "equals an allowed
  directory or is nested under one", written after the specification, to compare the
  gate with.
\<close>

definition canonical :: "host \<Rightarrow> string \<Rightarrow> string" where
  "canonical h p = path_normalize (path h) (path_resolve (path h) [p])"

definition caseFold :: "host \<Rightarrow> string \<Rightarrow> string" where
  "caseFold h s = (if win32 h then js_toLowerCase s else s)"

definition equalsOrNested :: "host \<Rightarrow> string \<Rightarrow> string \<Rightarrow> bool" where
  "equalsOrNested h p dir =
     (caseFold h (canonical h p) = caseFold h (canonical h dir)
      \<or> prefix (caseFold h (canonical h dir) @ path_sep (path h)) (caseFold h (canonical h p)))"

definition withinAllowed :: "host \<Rightarrow> string \<Rightarrow> bool" where
  "withinAllowed h p = (\<exists>dir \<in> set (getAllowedDirs h). equalsOrNested h p dir)"

text \<open>
  A text file in UTF-8: each of its characters is a well-formed byte sequence (one byte
  up to \<^verbatim>\<open>7F\<close>; a lead byte \<^verbatim>\<open>C2\<close> to \<^verbatim>\<open>DF\<close>, \<^verbatim>\<open>E0\<close> to \<^verbatim>\<open>EF\<close> or \<^verbatim>\<open>F0\<close> to \<^verbatim>\<open>F4\<close>
  followed by one, two or three continuation bytes, no overlong form, no surrogate,
  nothing above U+10FFFF).
\<close>

definition continuation :: "char \<Rightarrow> bool" where
  "continuation c = (0x80 \<le> byte c \<and> byte c \<le> 0xBF)"

fun wellFormedUtf8 :: "string \<Rightarrow> bool" where
  "wellFormedUtf8 [] = True"
| "wellFormedUtf8 (b # bs) =
     (if byte b \<le> 0x7F then wellFormedUtf8 bs
      else if 0xC2 \<le> byte b \<and> byte b \<le> 0xDF then
        (case bs of
           c1 # rest \<Rightarrow> continuation c1 \<and> wellFormedUtf8 rest
         | _ \<Rightarrow> False)
      else if 0xE0 \<le> byte b \<and> byte b \<le> 0xEF then
        (case bs of
           c1 # c2 # rest \<Rightarrow>
             continuation c1 \<and> (byte b = 0xE0 \<longrightarrow> 0xA0 \<le> byte c1)
             \<and> (byte b = 0xED \<longrightarrow> byte c1 \<le> 0x9F)
             \<and> continuation c2 \<and> wellFormedUtf8 rest
         | _ \<Rightarrow> False)
      else if 0xF0 \<le> byte b \<and> byte b \<le> 0xF4 then
        (case bs of
           c1 # c2 # c3 # rest \<Rightarrow>
             continuation c1 \<and> (byte b = 0xF0 \<longrightarrow> 0x90 \<le> byte c1)
             \<and> (byte b = 0xF4 \<longrightarrow> byte c1 \<le> 0x8F)
             \<and> continuation c2 \<and> continuation c3 \<and> wellFormedUtf8 rest
         | _ \<Rightarrow> False)
      else False)"

text \<open>
  The traversal of \<^verbatim>\<open>searchFiles\<close> as the sequence of the steps it takes when nothing
  stops it: a deadline check at the entry of a directory, a wait on the file system (the
  \<^verbatim>\<open>readdir\<close> of the directory, the validation of an entry) and the push of a result.
  The sequence depends on the tree, the pattern and the options, not on the clock or the
  timer. \<open>runSteps\<close> takes the steps one after the other under a schedule: it ends at the
  first step at which the traversal is cancelled or full, at a wait during which the
  timer's callback runs, or at a deadline check that finds the time up. \<open>pushesIn\<close>,
  \<open>awaitsIn\<close> and \<open>checksIn\<close> are the results pushed and the numbers of waits and of
  deadline checks in a part of the sequence.
\<close>

datatype step = Check | Await | Push string

fun fileSteps :: "finder \<Rightarrow> string \<Rightarrow> dirent list \<Rightarrow> step list" where
  "fileSteps fd currentPath [] = []"
| "fileSteps fd currentPath (entry # rest) =
     (if \<not> isFile entry then fileSteps fd currentPath rest
      else
        (let fullPath = path_join (path (fd_host fd)) [currentPath, entryName entry]
         in Await #
            (case validatePath (fd_host fd) fullPath of
               Inl e \<Rightarrow> []
             | Inr v \<Rightarrow> if nameMatches fd (entryName entry) then [Push fullPath] else [])
            @ fileSteps fd currentPath rest))"

fun searchSteps :: "finder \<Rightarrow> string \<Rightarrow> dirent list \<Rightarrow> int \<Rightarrow> step list"
  and dirSteps :: "finder \<Rightarrow> string \<Rightarrow> dirent list \<Rightarrow> int \<Rightarrow> step list" where
  "searchSteps fd currentPath entries depth =
     (if depth > fd_maxDepth fd then []
      else Check # Await # fileSteps fd currentPath entries @ dirSteps fd currentPath entries depth)"
| "dirSteps fd currentPath [] depth = []"
| "dirSteps fd currentPath (entry # rest) depth =
     (case entry of
        DirEntry name below \<Rightarrow>
          if depth \<ge> fd_maxDepth fd then []
          else if name \<in> set (fd_excludeDirs fd) then dirSteps fd currentPath rest depth
          else
            (let fullPath = path_join (path (fd_host fd)) [currentPath, name]
             in Await #
                (case validatePath (fd_host fd) fullPath of
                   Inl e \<Rightarrow> []
                 | Inr v \<Rightarrow>
                     (if nameMatches fd name then [Push fullPath] else [])
                     @ searchSteps fd fullPath below (depth + 1))
                @ dirSteps fd currentPath rest depth)
      | FileEntry name body \<Rightarrow> dirSteps fd currentPath rest depth
      | OtherEntry name \<Rightarrow> dirSteps fd currentPath rest depth)"

definition stopped :: "finder \<Rightarrow> walk \<Rightarrow> bool" where
  "stopped fd w = (wl_cancelled w \<or> int (length (wl_results w)) \<ge> fd_maxResults fd)"

fun runSteps :: "finder \<Rightarrow> step list \<Rightarrow> walk \<Rightarrow> string list + walk" where
  "runSteps fd [] w = Inr w"
| "runSteps fd (e # es) w =
     (if stopped fd w then Inr w
      else case e of
        Check \<Rightarrow>
          if elapsed (fd_schedule fd) (wl_checks w) > fd_timeoutMs fd
            then Inr (w\<lparr> wl_cancelled := True, wl_checks := wl_checks w + 1 \<rparr>)
          else runSteps fd es (w\<lparr> wl_checks := wl_checks w + 1 \<rparr>)
      | Await \<Rightarrow>
          if timerFires (fd_schedule fd) (wl_awaits w) then Inl (wl_results w)
          else runSteps fd es (w\<lparr> wl_awaits := wl_awaits w + 1 \<rparr>)
      | Push p \<Rightarrow> runSteps fd es (w\<lparr> wl_results := wl_results w @ [p] \<rparr>))"

fun pushesIn :: "step list \<Rightarrow> string list" where
  "pushesIn [] = []"
| "pushesIn (Push p # es) = p # pushesIn es"
| "pushesIn (e # es) = pushesIn es"

definition awaitsIn :: "step list \<Rightarrow> nat" where
  "awaitsIn es = length (filter (\<lambda>e. e = Await) es)"


section \<open>A workspace to run the code on\<close>

text \<open>
  The specification's scenario: a POSIX host whose allowed set is \<^verbatim>\<open>[/workspace]\<close>,
  over a file system given by its \<^verbatim>\<open>realpath\<close>.
\<close>

definition workspace_host :: "(string \<Rightarrow> string option) \<Rightarrow> host" where
  "workspace_host rp =
     \<lparr> path = posix_path ''/'', win32 = False, cwd = ''/'', homedir = ''/home/user'',
       tmpdir = ''/tmp'', allowedDirectories = Some [''/workspace''], realpath = rp,
       slow = False \<rparr>"

definition plain_files :: "string list \<Rightarrow> string \<Rightarrow> string option" where
  \<comment> \<open>a file system without symbolic links: the listed paths exist\<close>
  "plain_files ps p = (if p \<in> set ps then Some p else None)"

definition linked_files :: "string \<Rightarrow> string option" where
  \<comment> \<open>\<^verbatim>\<open>/workspace/link\<close> is a symbolic link to \<^verbatim>\<open>/etc/passwd\<close>\<close>
  "linked_files p =
     (if p = ''/workspace/link'' then Some ''/etc/passwd''
      else if p \<in> set [''/workspace'', ''/etc'', ''/etc/passwd''] then Some p
      else None)"

definition text_disk :: "(string \<times> string) list \<Rightarrow> disk" where
  \<comment> \<open>a disk of text files, given as pairs of a path and its bytes; nothing on it is
     an image, so nothing is encoded, and the estimate is the exact quotient\<close>
  "text_disk files =
     \<lparr> readFile = map_of files, getMimeType = (\<lambda>p. ''text/plain''), isImageFile = (\<lambda>m. False),
       base64 = (\<lambda>b. b), fileReadLineLimit = None, readSlow = False,
       estimateBytes = (\<lambda>offset bytesRead sampleLines. (offset * int bytesRead) div int sampleLines) \<rparr>"

text \<open>
  What the circular buffer of \<^verbatim>\<open>readFromEndWithReadline\<close> holds after the lines
  \<open>pre\<close>: line \<open>j\<close> of the last \<open>k\<close> lines sits in slot \<open>j mod k\<close>.
\<close>

definition circularInv :: "nat \<Rightarrow> string list \<Rightarrow> string option list \<times> nat \<times> nat \<Rightarrow> bool" where
  "circularInv k pre st =
     (case st of (buf, i, t) \<Rightarrow>
        length buf = k \<and> t = length pre \<and> i = t mod k
        \<and> (\<forall>j<t. t \<le> j + k \<longrightarrow> buf ! (j mod k) = Some (pre ! j)))"

text \<open>
  JavaScript's \<^verbatim>\<open>RegExp\<close> on the patterns of the examples below: a pattern that starts
  with a quantifier is a syntax error (\<^verbatim>\<open>Nothing to repeat\<close>), and a pattern made of
  letters matches the lines that contain it, letter case ignored under the flag
  \<^verbatim>\<open>i\<close>. The examples use no other pattern.
\<close>

definition literalRegExp :: "string \<Rightarrow> bool \<Rightarrow> (string \<Rightarrow> bool) option" where
  "literalRegExp p i =
     (case p of
        [] \<Rightarrow> Some (\<lambda>l. True)
      | c # cs \<Rightarrow>
          if c \<in> set ''*+?'' then None
          else Some (\<lambda>l. if i then js_includes (js_toLowerCase l) (js_toLowerCase p)
                           else js_includes l p))"

definition workspace_tree :: "dirent list \<Rightarrow> string \<Rightarrow> dirent list" where
  \<comment> \<open>the entries of \<^verbatim>\<open>/workspace\<close>\<close>
  "workspace_tree entries p = (if p = ''/workspace'' then entries else [])"

definition everything_exists :: "string \<Rightarrow> string option" where
  \<comment> \<open>a file system without symbolic links in which the paths asked for exist\<close>
  "everything_exists p = Some p"

section \<open>Properties\<close>

subsection \<open>The path gate\<close>

lemma isPathAllowed_fs_iff:
  "isPathAllowed_fs h q \<longleftrightarrow>
     \<not> js_includes (canonical h q) ''..'' \<and> withinAllowed h q"
  by (auto simp: isPathAllowed_fs_def isPathAllowed_def withinDir_def withinAllowed_def
      equalsOrNested_def canonical_def caseFold_def js_startsWith_def list_ex_iff Let_def)

lemma validationOperation_denied:
  "\<not> isPathAllowed_fs h (toAbsolutePath h p) \<Longrightarrow>
     validationOperation h p = Some (Inl (PathNotAllowed p (getAllowedDirs h)))"
  by (simp add: validationOperation_def)

lemma validationOperation_existing:
  "isPathAllowed_fs h (toAbsolutePath h p) \<Longrightarrow> realpath h (toAbsolutePath h p) = Some real \<Longrightarrow>
     validationOperation h p = Some (Inr real)"
  by (simp add: validationOperation_def)

lemma validatePath_Inr_allowed:
  "validatePath h p = Inr r \<Longrightarrow> isPathAllowed_fs h (toAbsolutePath h p)"
  by (auto simp: validatePath_def withTimeout_def validationOperation_def Let_def
      split: option.splits if_splits)

text \<open>
  What the gate does for a requested path that exists: when it is admitted it comes back
  as its real path, symbolic links resolved, and the allowed set has been tested on the
  requested path in its absolute normalised form, before the links are resolved.
\<close>

lemma validatePath_existing_real:
  assumes "realpath h (toAbsolutePath h p) = Some real"
    and "validatePath h p = Inr r"
  shows "r = real \<and> withinAllowed h (toAbsolutePath h p)"
proof -
  have a: "isPathAllowed_fs h (toAbsolutePath h p)"
    using assms(2) by (rule validatePath_Inr_allowed)
  then have "validationOperation h p = Some (Inr real)"
    using assms(1) by (rule validationOperation_existing)
  then have "r = real"
    using assms(2) by (simp add: validatePath_def withTimeout_def split: if_splits)
  then show ?thesis
    using a by (simp add: isPathAllowed_fs_iff)
qed

lemma validatePath_existing_real_workspace:
  "validatePath (workspace_host linked_files) ''/workspace'' = Inr ''/workspace''
   \<and> withinAllowed (workspace_host linked_files)
        (toAbsolutePath (workspace_host linked_files) ''/workspace'')"
proof -
  have e: "realpath (workspace_host linked_files)
             (toAbsolutePath (workspace_host linked_files) ''/workspace'') = Some ''/workspace''"
    by code_simp
  have v: "validatePath (workspace_host linked_files) ''/workspace'' = Inr ''/workspace''"
    by code_simp
  show ?thesis
    using validatePath_existing_real [OF e v] v by simp
qed

text \<open>
  C1 fails in the code. \<^verbatim>\<open>/workspace/link\<close> is a symbolic link inside the allowed
  directory \<^verbatim>\<open>/workspace\<close> whose target is \<^verbatim>\<open>/etc/passwd\<close>. \<^verbatim>\<open>validatePath\<close> tests
  the requested path and returns the resolved one untested: the link is admitted and the
  path that comes back is \<^verbatim>\<open>/etc/passwd\<close>. That path is outside the allowed set, the
  gate's own test denies it, and the gate denies it when it is asked to validate it. An
  internal read of the link returns the content of \<^verbatim>\<open>/etc/passwd\<close>.
\<close>

theorem validatePath_symlink_escapes:
  "validatePath (workspace_host linked_files) ''/workspace/link'' = Inr ''/etc/passwd''
   \<and> \<not> withinAllowed (workspace_host linked_files) ''/etc/passwd''
   \<and> \<not> isPathAllowed_fs (workspace_host linked_files) ''/etc/passwd''
   \<and> validatePath (workspace_host linked_files) ''/etc/passwd''
       = Inl (PathNotAllowed ''/etc/passwd'' [''/workspace''])
   \<and> readFileInternal (workspace_host linked_files)
        (text_disk [(''/etc/passwd'', ''root:x:0:0'')]) ''/workspace/link'' 0 (Some 1)
       = Inr ''root:x:0:0''"
  by code_simp

text \<open>
  C2, as the code has it. A path is allowed if and only if its canonical absolute form
  holds no \<^verbatim>\<open>..\<close> anywhere (a file name such as \<^verbatim>\<open>a..b\<close> included) and equals a
  canonical member of the allowed set or starts with one followed by the separator,
  letter case ignored on Windows only. An empty allowed set allows nothing.
\<close>

theorem isPathAllowed_iff_within:
  "isPathAllowed_fs h (toAbsolutePath h p) \<longleftrightarrow>
     \<not> js_includes (canonical h (toAbsolutePath h p)) ''..''
     \<and> (\<exists>dir \<in> set (getAllowedDirs h). equalsOrNested h (toAbsolutePath h p) dir)"
  by (simp add: isPathAllowed_fs_iff withinAllowed_def)

theorem isPathAllowed_iff_within_witness:
  "isPathAllowed_fs (workspace_host linked_files)
     (toAbsolutePath (workspace_host linked_files) ''/workspace/sub/new.txt'')
   \<and> equalsOrNested (workspace_host linked_files)
        (toAbsolutePath (workspace_host linked_files) ''/workspace/sub/new.txt'') ''/workspace''
   \<and> \<not> isPathAllowed_fs (workspace_host linked_files)
        (toAbsolutePath (workspace_host linked_files) ''/workspace-extra/new.txt'')"
proof -
  have g: "getAllowedDirs (workspace_host linked_files) = [''/workspace'']"
    by code_simp
  have c: "\<not> js_includes (canonical (workspace_host linked_files)
      (toAbsolutePath (workspace_host linked_files) ''/workspace/sub/new.txt'')) ''..''"
    by code_simp
  have e: "equalsOrNested (workspace_host linked_files)
        (toAbsolutePath (workspace_host linked_files) ''/workspace/sub/new.txt'') ''/workspace''"
    by code_simp
  have n: "\<not> equalsOrNested (workspace_host linked_files)
        (toAbsolutePath (workspace_host linked_files) ''/workspace-extra/new.txt'') ''/workspace''"
    by code_simp
  show ?thesis
    using isPathAllowed_iff_within [of "workspace_host linked_files" "''/workspace/sub/new.txt''"]
      isPathAllowed_iff_within [of "workspace_host linked_files" "''/workspace-extra/new.txt''"]
      g c e n
    by simp
qed

text \<open>
  C2 as stated fails: the canonical form of \<^verbatim>\<open>/workspace/a..b\<close> is nested under the
  allowed directory \<^verbatim>\<open>/workspace\<close>, and the path is not allowed.
\<close>

theorem isPathAllowed_dotted_name_denied:
  "canonical (workspace_host linked_files)
     (toAbsolutePath (workspace_host linked_files) ''/workspace/a..b'') = ''/workspace/a..b''
   \<and> equalsOrNested (workspace_host linked_files)
        (toAbsolutePath (workspace_host linked_files) ''/workspace/a..b'') ''/workspace''
   \<and> \<not> isPathAllowed_fs (workspace_host linked_files)
        (toAbsolutePath (workspace_host linked_files) ''/workspace/a..b'')"
  by code_simp

text \<open>
  C3, as the code has it. A path whose canonical absolute form still holds \<^verbatim>\<open>..\<close> is
  denied whatever the allowed set is: the validation ends with the error
  \<^verbatim>\<open>Path not allowed\<close> and never returns a path. \<^verbatim>\<open>/workspace/../etc/passwd\<close> is
  denied with the same error, for lying outside \<^verbatim>\<open>/workspace\<close>: its canonical form
  \<^verbatim>\<open>/etc/passwd\<close> holds no \<^verbatim>\<open>..\<close>.
\<close>

theorem traversal_denied:
  "(js_includes (canonical h (toAbsolutePath h p)) ''..'' \<longrightarrow>
      validationOperation h p = Some (Inl (PathNotAllowed p (getAllowedDirs h)))
      \<and> (\<forall>r. validatePath h p \<noteq> Inr r))
   \<and> validatePath (workspace_host linked_files) ''/workspace/../etc/passwd''
       = Inl (PathNotAllowed ''/workspace/../etc/passwd'' [''/workspace''])"
proof -
  have "validatePath (workspace_host linked_files) ''/workspace/../etc/passwd''
       = Inl (PathNotAllowed ''/workspace/../etc/passwd'' [''/workspace''])"
    by code_simp
  moreover have "validationOperation h p = Some (Inl (PathNotAllowed p (getAllowedDirs h)))
      \<and> (\<forall>r. validatePath h p \<noteq> Inr r)"
    if t: "js_includes (canonical h (toAbsolutePath h p)) ''..''"
  proof -
    have n: "\<not> isPathAllowed_fs h (toAbsolutePath h p)"
      using t by (simp add: isPathAllowed_fs_iff)
    then show ?thesis
      using validatePath_Inr_allowed [of h p] by (auto simp: validationOperation_denied)
  qed
  ultimately show ?thesis by blast
qed

theorem traversal_denied_witness:
  "js_includes (canonical (workspace_host linked_files)
      (toAbsolutePath (workspace_host linked_files) ''/workspace/a..b'')) ''..''
   \<and> validationOperation (workspace_host linked_files) ''/workspace/a..b''
       = Some (Inl (PathNotAllowed ''/workspace/a..b'' [''/workspace'']))
   \<and> validatePath (workspace_host linked_files) ''/workspace/a..b'' \<noteq> Inr ''/workspace/a..b''"
proof -
  have t: "js_includes (canonical (workspace_host linked_files)
      (toAbsolutePath (workspace_host linked_files) ''/workspace/a..b'')) ''..''"
    by code_simp
  have g: "getAllowedDirs (workspace_host linked_files) = [''/workspace'']"
    by code_simp
  show ?thesis
    using traversal_denied [of "workspace_host linked_files" "''/workspace/a..b''"] t g
    by simp
qed

text \<open>
  C3 as stated fails on its example: the denial of \<^verbatim>\<open>/workspace/../etc/passwd\<close> does
  not come from the traversal test, which finds no \<^verbatim>\<open>..\<close> in the canonical form, and
  the analysis logged with the denial reports no traversal either; the error is the one
  an outside path gets.
\<close>

theorem traversal_example_no_traversal_reason:
  "canonical (workspace_host linked_files)
     (toAbsolutePath (workspace_host linked_files) ''/workspace/../etc/passwd'') = ''/etc/passwd''
   \<and> \<not> js_includes ''/etc/passwd'' ''..''
   \<and> \<not> containsTraversal (path (workspace_host linked_files))
        (toAbsolutePath (workspace_host linked_files) ''/workspace/../etc/passwd'')
   \<and> validatePath (workspace_host linked_files) ''/workspace/../etc/passwd''
       = Inl (PathNotAllowed ''/workspace/../etc/passwd'' [''/workspace''])
   \<and> validatePath (workspace_host linked_files) ''/etc/passwd''
       = Inl (PathNotAllowed ''/etc/passwd'' [''/workspace''])"
  by code_simp

text \<open>
  The specification's scenario of a new file: \<^verbatim>\<open>/workspace/sub\<close> does not exist,
  \<^verbatim>\<open>/workspace\<close> does, and the path is admitted as it is.
\<close>

lemma spec_scenario_new_file:
  "validatePath (workspace_host (plain_files [''/workspace''])) ''/workspace/sub/new.txt''
   = Inr ''/workspace/sub/new.txt''"
  by code_simp

subsection \<open>The line-addressable reader\<close>

lemma js_split_replicate: "c \<noteq> d \<Longrightarrow> js_split d (replicate k c) = [replicate k c]"
  by (induction k) auto

lemma readlineLoop_replicate:
  "c \<noteq> LF \<Longrightarrow> c \<noteq> CR \<Longrightarrow> buf @ replicate k c \<noteq> [] \<Longrightarrow>
     readlineLoop buf (replicate k c) = [buf @ replicate k c]"
proof (induction k arbitrary: buf)
  case 0
  then show ?case by simp
next
  case (Suc k)
  show ?case
  proof (cases k)
    case 0
    then show ?thesis using Suc.prems by simp
  next
    case (Suc j)
    have "readlineLoop (buf @ [c]) (replicate k c) = [(buf @ [c]) @ replicate k c]"
      using Suc.prems by (intro Suc.IH) auto
    then show ?thesis using Suc Suc.prems by (simp add: replicate_app_Cons_same)
  qed
qed

lemma reverseLoop_leading_empty:
  assumes "c \<noteq> LF" "2 \<le> n"
  shows "0 < p \<Longrightarrow> p \<le> Suc M \<Longrightarrow>
     reverseLoop (LF # replicate M c) n p [] (replicate (Suc M - p) c) = (0, [replicate M c], [])"
proof (induction p rule: less_induct)
  case (less p)
  show ?case
  proof (cases "p \<le> CHUNK_SIZE")
    case True
    obtain q where q: "p = Suc q" using less.prems(1) by (cases p) auto
    have t: "take p (LF # replicate M c) @ replicate (Suc M - p) c = LF # replicate M c"
      using less.prems q by (simp add: min_def flip: replicate_add)
    have m: "min CHUNK_SIZE p = p" using True by simp
    show ?thesis
      using less.prems assms
      by (subst reverseLoop.simps) (simp add: m t js_split_replicate reverseLoop.simps [of _ _ 0])
  next
    case False
    define p' where "p' = p - CHUNK_SIZE"
    have p': "0 < p'" "p' < p" "p' \<le> Suc M" "min CHUNK_SIZE p = CHUNK_SIZE"
      using False less.prems by (auto simp: p'_def CHUNK_SIZE_def)
    obtain q where q: "p' = Suc q" using p'(1) by (cases p') auto
    have "CHUNK_SIZE \<le> M - q"
      using False less.prems q p'_def by arith
    then have t1: "take CHUNK_SIZE (drop p' (LF # replicate M c)) = replicate CHUNK_SIZE c"
      using q by (simp add: min_def)
    have t2: "CHUNK_SIZE + (Suc M - p) = Suc M - p'"
      using False less.prems p'_def by arith
    have t: "take CHUNK_SIZE (drop p' (LF # replicate M c)) @ replicate (Suc M - p) c
             = replicate (Suc M - p') c"
      unfolding t1 by (simp only: t2 flip: replicate_add)
    have ih: "reverseLoop (LF # replicate M c) n p' [] (replicate (Suc M - p') c)
              = (0, [replicate M c], [])"
      using less.IH [OF p'(2) p'(1) p'(3)] .
    show ?thesis
      using less.prems assms p' ih
      by (subst reverseLoop.simps) (simp add: t js_split_replicate flip: p'_def)
  qed
qed

lemma readLastNLinesReverse_leading_empty:
  assumes "c \<noteq> LF" "2 \<le> n"
  shows "readLastNLinesReverse_lines (LF # replicate M c) n = [replicate M c]"
  using reverseLoop_leading_empty [OF assms, of "Suc M" M] assms
  by (simp add: readLastNLinesReverse_lines_def js_slice_def)

lemma forwardLoop_before_offset:
  "int (lineNumber + length ls) \<le> offset \<Longrightarrow> forwardLoop offset len result lineNumber ls = result"
  by (induction ls arbitrary: lineNumber) (auto simp: Let_def)

lemma mod_distinct_window:
  fixes j t k :: nat
  assumes "j < t" "t < j + k"
  shows "j mod k \<noteq> t mod k"
proof
  assume "j mod k = t mod k"
  then have "t mod k = j mod k" by simp
  moreover have "j \<le> t" using assms(1) by simp
  ultimately have "k dvd t - j"
    by (simp add: mod_eq_dvd_iff_nat)
  moreover have "0 < t - j" "t - j < k" using assms by auto
  ultimately show False by (auto dest: dvd_imp_le)
qed

lemma circularLoop_inv:
  assumes "0 < k"
  shows "circularInv k pre (buf, i, t) \<Longrightarrow> circularInv k (pre @ ls) (circularLoop k buf i t ls)"
proof (induction ls arbitrary: buf pre t i)
  case Nil
  then show ?case by simp
next
  case (Cons line rest)
  let ?buf1 = "buf[i := Some line]"
  from Cons.prems have len: "length buf = k" and t: "t = length pre" and i: "i = t mod k"
    and slots: "\<And>j. j < t \<Longrightarrow> t \<le> j + k \<Longrightarrow> buf ! (j mod k) = Some (pre ! j)"
    by (auto simp: circularInv_def)
  have ik: "i < length buf" using len i assms by simp
  have inv1: "\<forall>j<Suc t. Suc t \<le> j + k \<longrightarrow> ?buf1 ! (j mod k) = Some ((pre @ [line]) ! j)"
  proof (intro allI impI)
    fix j assume j: "j < Suc t" "Suc t \<le> j + k"
    show "?buf1 ! (j mod k) = Some ((pre @ [line]) ! j)"
    proof (cases "j = t")
      case True
      then show ?thesis using ik i t by (simp add: nth_append)
    next
      case False
      then have jt: "j < t" "t < j + k" using j by auto
      then have "j mod k \<noteq> i" using mod_distinct_window [OF jt] i by simp
      moreover have "buf ! (j mod k) = Some (pre ! j)" using slots jt by simp
      ultimately show ?thesis using jt t by (simp add: nth_append)
    qed
  qed
  have "circularInv k (pre @ [line]) (?buf1, (i + 1) mod k, Suc t)"
    using inv1 len t i by (simp add: circularInv_def mod_Suc_eq)
  then have "circularInv k ((pre @ [line]) @ rest) (circularLoop k ?buf1 ((i + 1) mod k) (Suc t) rest)"
    by (rule Cons.IH)
  then show ?case by simp
qed

lemma map_filter_Some: "List.map_filter (\<lambda>slot. slot) (map Some xs) = xs"
  by (induction xs) (simp_all add: List.map_filter_simps)

lemma readFromEndWithReadline_lines_tail:
  assumes "0 < k"
  shows "readFromEndWithReadline_lines bytes k
         = drop (length (readline bytes) - k) (readline bytes)"
proof -
  define ls where "ls = readline bytes"
  obtain buf i t where run: "circularLoop k (replicate k None) 0 0 ls = (buf, i, t)"
    by (cases "circularLoop k (replicate k None) 0 0 ls") auto
  have "circularInv k ([] @ ls) (circularLoop k (replicate k None) 0 0 ls)"
    by (rule circularLoop_inv [OF assms]) (simp add: circularInv_def)
  then have len: "length buf = k" and t: "t = length ls" and i: "i = t mod k"
    and slots: "\<And>j. j < t \<Longrightarrow> t \<le> j + k \<Longrightarrow> buf ! (j mod k) = Some (ls ! j)"
    by (auto simp: run circularInv_def)
  show ?thesis
  proof (cases "k \<le> t")
    case True
    have ik: "i < k" using i assms by simp
    have "drop i buf @ take i buf = map Some (drop (t - k) ls)"
    proof (rule nth_equalityI)
      show "length (drop i buf @ take i buf) = length (map Some (drop (t - k) ls))"
        using len t True ik by simp
    next
      fix m assume "m < length (drop i buf @ take i buf)"
      then have m: "m < k" using len ik by simp
      have "drop i buf @ take i buf = rotate i buf"
        using ik len by (simp add: rotate_drop_take)
      then have "(drop i buf @ take i buf) ! m = buf ! ((i + m) mod k)"
        using m len by (simp add: nth_rotate)
      also have "(i + m) mod k = (t - k + m) mod k"
      proof -
        have "(t - k + m) mod k = (t - k + m + k) mod k" by simp
        also have "t - k + m + k = t + m" using True by simp
        also have "(t + m) mod k = (i + m) mod k" using i by (simp add: mod_add_left_eq)
        finally show ?thesis by simp
      qed
      also have "buf ! ((t - k + m) mod k) = Some (ls ! (t - k + m))"
        using m True by (intro slots) auto
      also have "\<dots> = map Some (drop (t - k) ls) ! m"
        using m True t by simp
      finally show "(drop i buf @ take i buf) ! m = map Some (drop (t - k) ls) ! m" .
    qed
    then show ?thesis
      using True run t by (simp add: readFromEndWithReadline_lines_def map_filter_Some flip: ls_def)
  next
    case False
    have "map (\<lambda>slot. case slot of Some line \<Rightarrow> line | None \<Rightarrow> []) (take t buf) = ls"
    proof (rule nth_equalityI)
      show "length (map (\<lambda>slot. case slot of Some line \<Rightarrow> line | None \<Rightarrow> []) (take t buf)) = length ls"
        using len t False by simp
    next
      fix j assume "j < length (map (\<lambda>slot. case slot of Some line \<Rightarrow> line | None \<Rightarrow> []) (take t buf))"
      then have j: "j < t" using len False by simp
      then have "buf ! (j mod k) = Some (ls ! j)" using False by (intro slots) auto
      then show "map (\<lambda>slot. case slot of Some line \<Rightarrow> line | None \<Rightarrow> []) (take t buf) ! j = ls ! j"
        using j False len by simp
    qed
    then show ?thesis
      using False run t by (simp add: readFromEndWithReadline_lines_def flip: ls_def)
  qed
qed

lemma js_split_append:
  "d \<notin> set xs \<Longrightarrow> js_split d (xs @ d # ys) = xs # js_split d ys"
  by (induction xs) auto

lemma readlineLoop_replicate_LF:
  "c \<noteq> LF \<Longrightarrow> c \<noteq> CR \<Longrightarrow> readlineLoop buf (replicate k c @ [LF]) = [buf @ replicate k c]"
proof (induction k arbitrary: buf)
  case 0
  then show ?case by simp
next
  case (Suc k)
  have "readlineLoop (buf @ [c]) (replicate k c @ [LF]) = [(buf @ [c]) @ replicate k c]"
    using Suc.prems by (intro Suc.IH)
  then show ?case
    using Suc.prems by (cases k) (simp_all add: replicate_app_Cons_same)
qed

lemma readLastNLinesReverse_trailing_newline:
  assumes "c \<noteq> LF" "CHUNK_SIZE \<le> M"
  shows "readLastNLinesReverse_lines (replicate M c @ [LF]) 1 = [[]]"
proof -
  have pos: "0 < CHUNK_SIZE" by (simp add: CHUNK_SIZE_def)
  have m: "min CHUNK_SIZE (Suc M) = CHUNK_SIZE" using assms(2) by simp
  have d: "Suc M - CHUNK_SIZE - M = 0" "M - (Suc M - CHUNK_SIZE) = CHUNK_SIZE - 1"
    using assms(2) pos by arith+
  have chunk: "take CHUNK_SIZE (drop (Suc M - CHUNK_SIZE) (replicate M c @ [LF]))
               = replicate (CHUNK_SIZE - 1) c @ [LF]"
    using pos by (simp add: d)
  have split: "js_split LF (replicate (CHUNK_SIZE - 1) c @ [LF]) = [replicate (CHUNK_SIZE - 1) c, []]"
    using assms(1) by (simp add: js_split_append)
  have "reverseLoop (replicate M c @ [LF]) 1 (Suc M) [] []
        = reverseLoop (replicate M c @ [LF]) 1 (Suc M - CHUNK_SIZE) [[]] (replicate (CHUNK_SIZE - 1) c)"
    by (subst reverseLoop.simps)
      (simp only: Let_def m chunk split append_Nil2 list.case, simp)
  also have "\<dots> = (Suc M - CHUNK_SIZE, [[]], replicate (CHUNK_SIZE - 1) c)"
    by (subst reverseLoop.simps) simp
  finally show ?thesis
    using assms(2) by (simp add: readLastNLinesReverse_lines_def js_slice_def)
qed

text \<open>
  C4, on the code. The file is larger than the large-file threshold, so a tail read of at
  most 100 lines takes the backward chunked strategy. The first file is an empty line
  followed by one long line: it has two lines, whether they are counted as
  \<^verbatim>\<open>readline\<close> streams them or by splitting at \<^verbatim>\<open>\n\<close>, and the tail read of two
  lines returns only the second, while the circular-buffer strategy returns both on the
  same bytes. The second file is one long line and its terminator: the tail read of one
  line returns an empty line, while the circular-buffer strategy returns the line.
\<close>

theorem tail_reverse_diverges:
  "readFileWithSmartPositioning
     (text_disk [(''/workspace/big.log'', LF # replicate 10485760 (CHR ''x''))])
     ''/workspace/big.log'' (- 2) 1000 ''text/plain'' False
   = Inr \<lparr> content = replicate 10485760 (CHR ''x''), mimeType = ''text/plain'', isImage = False \<rparr>
   \<and> readline (LF # replicate 10485760 (CHR ''x'')) = [[], replicate 10485760 (CHR ''x'')]
   \<and> js_split LF (LF # replicate 10485760 (CHR ''x'')) = [[], replicate 10485760 (CHR ''x'')]
   \<and> readFromEndWithReadline_lines (LF # replicate 10485760 (CHR ''x'')) 2
       = [[], replicate 10485760 (CHR ''x'')]
   \<and> readFileWithSmartPositioning
       (text_disk [(''/workspace/big.log'', replicate 10485760 (CHR ''x'') @ [LF])])
       ''/workspace/big.log'' (- 1) 1000 ''text/plain'' False
     = Inr \<lparr> content = [], mimeType = ''text/plain'', isImage = False \<rparr>
   \<and> readline (replicate 10485760 (CHR ''x'') @ [LF]) = [replicate 10485760 (CHR ''x'')]
   \<and> readFromEndWithReadline_lines (replicate 10485760 (CHR ''x'') @ [LF]) 1
       = [replicate 10485760 (CHR ''x'')]"
proof -
  let ?x = "CHR ''x''"
  let ?M = "10485760 :: nat"
  have r1: "readLastNLinesReverse_lines (LF # replicate ?M ?x) 2 = [replicate ?M ?x]"
    by (rule readLastNLinesReverse_leading_empty) simp_all
  have "readLastNLinesReverse_lines (replicate ?M ?x @ [LF]) 1 = [[]]"
    by (rule readLastNLinesReverse_trailing_newline) (simp_all add: CHUNK_SIZE_def)
  then have r2: "readLastNLinesReverse_lines (replicate ?M ?x @ [LF]) (Suc 0) = [[]]"
    by simp
  have l1: "readline (LF # replicate ?M ?x) = [[], replicate ?M ?x]"
  proof -
    obtain q where q: "?M = Suc q" by (cases ?M) simp_all
    have "readlineLoop [] (replicate ?M ?x) = [[] @ replicate ?M ?x]"
      by (rule readlineLoop_replicate) simp_all
    then show ?thesis
      unfolding readline_def q by simp
  qed
  have l2: "readline (replicate ?M ?x @ [LF]) = [replicate ?M ?x]"
    using readlineLoop_replicate_LF [of ?x "[]" ?M] by (simp add: readline_def)
  have s1: "js_split LF (LF # replicate ?M ?x) = [[], replicate ?M ?x]"
    by (simp add: js_split_replicate)
  have c1: "readFromEndWithReadline_lines (LF # replicate ?M ?x) 2 = [[], replicate ?M ?x]"
    by (simp add: readFromEndWithReadline_lines_tail l1)
  have c2: "readFromEndWithReadline_lines (replicate ?M ?x @ [LF]) 1 = [replicate ?M ?x]"
    by (simp add: readFromEndWithReadline_lines_tail l2)
  have d1: "readFileWithSmartPositioning
     (text_disk [(''/workspace/big.log'', LF # replicate ?M ?x)])
     ''/workspace/big.log'' (- 2) 1000 ''text/plain'' False
   = Inr \<lparr> content = replicate ?M ?x, mimeType = ''text/plain'', isImage = False \<rparr>"
    by (simp add: readFileWithSmartPositioning_def text_disk_def LARGE_FILE_THRESHOLD_def
        SMALL_READ_THRESHOLD_def readLastNLinesReverse_def render_def r1)
  have d2: "readFileWithSmartPositioning
       (text_disk [(''/workspace/big.log'', replicate ?M ?x @ [LF])])
       ''/workspace/big.log'' (- 1) 1000 ''text/plain'' False
     = Inr \<lparr> content = [], mimeType = ''text/plain'', isImage = False \<rparr>"
    by (simp add: readFileWithSmartPositioning_def text_disk_def LARGE_FILE_THRESHOLD_def
        SMALL_READ_THRESHOLD_def readLastNLinesReverse_def render_def r2)
  show ?thesis
    using d1 l1 s1 c1 d2 l2 c2 by simp
qed

lemma forwardLoop_window:
  "forwardLoop offset len result n ls
   = result @ take (nat (len - int (length result))) (drop (nat (offset - int n)) ls)"
proof (induction ls arbitrary: result n)
  case Nil
  show ?case by simp
next
  case (Cons l rest)
  show ?case
  proof (cases "int n \<ge> offset \<and> int (length result) < len")
    case True
    then have d: "nat (offset - int n) = 0" by simp
    obtain k where k: "nat (len - int (length result)) = Suc k"
      using True by (cases "nat (len - int (length result))") auto
    show ?thesis
    proof (cases "int (length (result @ [l])) \<ge> len")
      case full: True
      then have "k = 0" using k True by auto
      then show ?thesis using True full k d by (simp add: Let_def)
    next
      case False
      have "nat (len - int (length (result @ [l]))) = k" using k by auto
      moreover have "nat (offset - int (n + 1)) = 0" using True by simp
      ultimately show ?thesis
        using True False k d Cons.IH [of "result @ [l]" "n + 1"] by (simp add: Let_def)
    qed
  next
    case False
    show ?thesis
    proof (cases "int (length result) \<ge> len")
      case True
      then show ?thesis using False by (simp add: Let_def)
    next
      case room: False
      then have lt: "int n < offset" using False by simp
      then obtain j where j: "nat (offset - int n) = Suc j"
        by (cases "nat (offset - int n)") auto
      then have "nat (offset - int (n + 1)) = j" by auto
      then show ?thesis
        using False room j Cons.IH [of result "n + 1"] by (simp add: Let_def)
    qed
  qed
qed

lemma readFromStartWithReadline_lines_window:
  "readFromStartWithReadline_lines bytes offset len
   = take (nat len) (drop (nat offset) (readline bytes))"
  by (simp add: readFromStartWithReadline_lines_def forwardLoop_window)

lemma readFromStartWithReadline_lines_past_end:
  "int (length (readline bytes)) \<le> offset \<Longrightarrow> readFromStartWithReadline_lines bytes offset len = []"
  by (simp add: readFromStartWithReadline_lines_def forwardLoop_before_offset)

text \<open>
  C10. A forward read of a file below the large-file threshold whose offset is at or past
  the number of lines of the file (the lines the reader streams) succeeds: it holds no
  content line, only the status line and the blank line that follows it.
\<close>

theorem readFileFromDisk_offset_past_end:
  assumes "filePath \<noteq> []"
    and "validatePath h filePath = Inr validPath"
    and "\<not> isImageFile d (getMimeType d validPath)"
    and "readFile d validPath = Some bytes"
    and "length bytes < LARGE_FILE_THRESHOLD"
    and "int (length (readline bytes)) \<le> offset"
    and "\<not> readSlow d"
  shows "readFileFromDisk h d filePath offset len0
         = Inr \<lparr> content = generateEnhancedStatusMessage 0 offset (getFileLineCount d validPath) False
                           @ [LF, LF],
                 mimeType = getMimeType d validPath, isImage = False \<rparr>"
proof -
  have "0 \<le> offset" using assms(6) by simp
  then show ?thesis
    using assms
    by (simp add: readFileFromDisk_def readFileWithSmartPositioning_def Let_def withTimeout_def
        readFromStartWithReadline_def readFromStartWithReadline_lines_past_end render_def)
qed

theorem readFileFromDisk_offset_past_end_witness:
  "readFileFromDisk (workspace_host (plain_files [''/workspace'', ''/workspace/a.txt'']))
     (text_disk [(''/workspace/a.txt'', ''L1\<newline>L2\<newline>L3\<newline>L4\<newline>L5\<newline>'')])
     ''/workspace/a.txt'' 5 (Some 3)
   = Inr \<lparr> content = ''[Reading 0 lines from line 5 (total: 6 lines, 1 remaining)]'' @ [LF, LF],
           mimeType = ''text/plain'', isImage = False \<rparr>"
proof -
  let ?h = "workspace_host (plain_files [''/workspace'', ''/workspace/a.txt''])"
  let ?bytes = "''L1\<newline>L2\<newline>L3\<newline>L4\<newline>L5\<newline>''"
  let ?d = "text_disk [(''/workspace/a.txt'', ?bytes)]"
  have v: "validatePath ?h ''/workspace/a.txt'' = Inr ''/workspace/a.txt''"
    by code_simp
  have r: "int (length (readline ?bytes)) \<le> 5"
    by code_simp
  have s: "length ?bytes < LARGE_FILE_THRESHOLD"
    by (simp add: LARGE_FILE_THRESHOLD_def)
  have c: "getFileLineCount ?d ''/workspace/a.txt'' = Some 6"
    by (simp add: getFileLineCount_def text_disk_def LINE_COUNT_LIMIT_def countLines_def)
  have "generateEnhancedStatusMessage 0 5 (Some 6) False
        = ''[Reading 0 lines from line 5 (total: 6 lines, 1 remaining)]''"
    by code_simp
  then have m: "generateEnhancedStatusMessage 0 5 (getFileLineCount ?d ''/workspace/a.txt'') False
           = ''[Reading 0 lines from line 5 (total: 6 lines, 1 remaining)]''"
    by (simp only: c)
  have "readFileFromDisk ?h ?d ''/workspace/a.txt'' 5 (Some 3)
        = Inr \<lparr> content = generateEnhancedStatusMessage 0 5
                            (getFileLineCount ?d ''/workspace/a.txt'') False @ [LF, LF],
                mimeType = getMimeType ?d ''/workspace/a.txt'', isImage = False \<rparr>"
    by (rule readFileFromDisk_offset_past_end [OF _ v _ _ s r]) (simp_all add: text_disk_def)
  then show ?thesis
    by (simp add: m) (simp add: text_disk_def)
qed

text \<open>
  The total that the status line reports is \<open>countLines\<close>, the number of pieces
  between \<^verbatim>\<open>\n\<close>. It is at least the number of lines that are streamed when no
  \<^verbatim>\<open>\r\<close> stands alone, so an offset at or past the reported total reads no line
  either; a lone \<^verbatim>\<open>\r\<close> ends a line for the reader and not for the total.
\<close>

lemma js_split_not_Nil: "js_split d cs \<noteq> []"
  by (induction cs) (auto split: list.splits)

lemma js_split_length_Cons:
  "c \<noteq> d \<Longrightarrow> length (js_split d (c # cs)) = length (js_split d cs)"
  using js_split_not_Nil [of d cs] by (cases "js_split d cs") auto

lemma readlineLoop_le_split:
  "noLoneCR cs \<Longrightarrow> length (readlineLoop buf cs) \<le> length (js_split LF cs)"
proof (induction buf cs rule: readlineLoop.induct)
  case (1 buf)
  show ?case by simp
next
  case (2 buf c)
  then show ?case by auto
next
  case (3 buf c d cs)
  show ?case
  proof (cases "c = LF")
    case True
    then show ?thesis using 3 by simp
  next
    case nl: False
    show ?thesis
    proof (cases "c = CR")
      case True
      then have d: "d = LF" using "3.prems" by simp
      have "noLoneCR cs" using "3.prems" d by (cases cs) auto
      then have "length (readlineLoop [] cs) \<le> length (js_split LF cs)"
        using "3.IH"(2) nl True d by simp
      then show ?thesis using nl True d by (simp add: js_split_length_Cons)
    next
      case False
      have "length (readlineLoop (buf @ [c]) (d # cs)) \<le> length (js_split LF (d # cs))"
        using "3.IH"(4) "3.prems" nl False by simp
      then show ?thesis
        using nl False js_split_length_Cons [of c LF "d # cs"] by simp
    qed
  qed
qed

lemma readline_le_countLines:
  "noLoneCR bytes \<Longrightarrow> length (readline bytes) \<le> countLines bytes"
  by (simp add: readline_def countLines_def readlineLoop_le_split)

lemma lone_CR_counts:
  "countLines (''a'' @ [CR] @ ''b'') = 1 \<and> readline (''a'' @ [CR] @ ''b'') = [''a'', ''b'']
   \<and> readFromStartWithReadline_lines (''a'' @ [CR] @ ''b'') 1 10 = [''b'']"
  by code_simp

lemma spec_scenario_reads:
  "readFromStartWithReadline_lines ''L1\<newline>L2\<newline>L3\<newline>L4\<newline>L5\<newline>'' 0 3 = [''L1'', ''L2'', ''L3'']
   \<and> readFromEndWithReadline_lines ''L1\<newline>L2\<newline>L3\<newline>L4\<newline>L5\<newline>'' 2 = [''L4'', ''L5'']"
  by code_simp

lemma readFromStartWithReadline_lines_past_total:
  "noLoneCR bytes \<Longrightarrow> int (countLines bytes) \<le> offset \<Longrightarrow>
     readFromStartWithReadline_lines bytes offset len = []"
  using readline_le_countLines [of bytes]
  by (intro readFromStartWithReadline_lines_past_end) simp

subsection \<open>Content search\<close>

text \<open>
  C6, on the code. The corpus is the one file \<^verbatim>\<open>/workspace/a.txt\<close> holding the line
  \<^verbatim>\<open>foo bar\<close>, the pattern is \<^verbatim>\<open>foo\<close>. With the engine available, ripgrep prints one
  match for line 1 whose submatch is \<^verbatim>\<open>foo\<close>, and the record's text is that submatch;
  with the engine unavailable the walker's record holds the whole line. The second
  corpus is the file and the options of the repository's own search test
  (\<^verbatim>\<open>filePattern: '*.txt'\<close>): the engine takes the file pattern as a glob, the walker
  compiles it as a regular expression and fails.
\<close>

theorem fallback_differs_from_engine:
  "searchTextInFiles (workspace_host everything_exists) True
     (\<lambda>args. RgClosed (Some 0)
        [RgOther, RgMatch (Some ''/workspace/a.txt'') (Some 1) [''foo''], RgOther, RgOther] [])
     literalRegExp
     \<lparr> rootPath = ''/workspace'', pattern = ''foo'', filePattern = None, ignoreCase = Some False,
       maxResults = None, includeHidden = None, contextLines = None \<rparr>
     (workspace_tree [FileEntry ''a.txt'' (Some ''foo bar'')])
   = Inr [\<lparr> sr_file = ''/workspace/a.txt'', sr_line = 1, sr_match = ''foo'' \<rparr>]
   \<and> searchTextInFiles (workspace_host everything_exists) False
     (\<lambda>args. RgClosed (Some 0)
        [RgOther, RgMatch (Some ''/workspace/a.txt'') (Some 1) [''foo''], RgOther, RgOther] [])
     literalRegExp
     \<lparr> rootPath = ''/workspace'', pattern = ''foo'', filePattern = None, ignoreCase = Some False,
       maxResults = None, includeHidden = None, contextLines = None \<rparr>
     (workspace_tree [FileEntry ''a.txt'' (Some ''foo bar'')])
   = Inr [\<lparr> sr_file = ''/workspace/a.txt'', sr_line = 1, sr_match = ''foo bar'' \<rparr>]
   \<and> searchTextInFiles (workspace_host everything_exists) True
     (\<lambda>args. RgClosed (Some 0)
        [RgOther,
         RgMatch (Some ''/workspace/test-search-file.txt'') (Some 1) [''searchTextInFiles''],
         RgMatch (Some ''/workspace/test-search-file.txt'') (Some 2) [''searchTextInFiles''],
         RgOther, RgOther] [])
     literalRegExp
     \<lparr> rootPath = ''/workspace'', pattern = ''searchTextInFiles'', filePattern = Some ''*.txt'',
       ignoreCase = None, maxResults = Some 5, includeHidden = None, contextLines = None \<rparr>
     (workspace_tree [FileEntry ''test-search-file.txt''
        (Some ''This is a test file for searchTextInFiles function\<newline>Another line with searchTextInFiles'')])
   = Inr [\<lparr> sr_file = ''/workspace/test-search-file.txt'', sr_line = 1,
             sr_match = ''searchTextInFiles'' \<rparr>,
          \<lparr> sr_file = ''/workspace/test-search-file.txt'', sr_line = 2,
             sr_match = ''searchTextInFiles'' \<rparr>]
   \<and> searchTextInFiles (workspace_host everything_exists) False
     (\<lambda>args. RgClosed (Some 0) [] [])
     literalRegExp
     \<lparr> rootPath = ''/workspace'', pattern = ''searchTextInFiles'', filePattern = Some ''*.txt'',
       ignoreCase = None, maxResults = Some 5, includeHidden = None, contextLines = None \<rparr>
     (workspace_tree [FileEntry ''test-search-file.txt''
        (Some ''This is a test file for searchTextInFiles function\<newline>Another line with searchTextInFiles'')])
   = Inl (RegExpSyntaxError ''*.txt'')"
  by code_simp

text \<open>
  C9, on the code. With \<^verbatim>\<open>maxResults = 1\<close> and one context line, the walker returns
  three records for the one matching line: the bound is tested after the context lines
  are added. On the engine's path the bound is only passed on as \<^verbatim>\<open>-m\<close>, which ripgrep
  applies to each file: two files with one match each give two records.
\<close>

theorem fallback_exceeds_maxResults:
  "searchTextInFiles (workspace_host everything_exists) False
     (\<lambda>args. RgErrorEvent ''spawn UNKNOWN'')
     literalRegExp
     \<lparr> rootPath = ''/workspace'', pattern = ''foo'', filePattern = None, ignoreCase = None,
       maxResults = Some 1, includeHidden = None, contextLines = Some 1 \<rparr>
     (workspace_tree [FileEntry ''b.txt'' (Some ''a\<newline>foo\<newline>b'')])
   = Inr [\<lparr> sr_file = ''/workspace/b.txt'', sr_line = 2, sr_match = ''foo'' \<rparr>,
          \<lparr> sr_file = ''/workspace/b.txt'', sr_line = 1, sr_match = ''a'' \<rparr>,
          \<lparr> sr_file = ''/workspace/b.txt'', sr_line = 3, sr_match = ''b'' \<rparr>]
   \<and> searchTextInFiles (workspace_host everything_exists) True
     (\<lambda>args. if args = [''--json'', ''--line-number'', ''-i'', ''-m'', ''1'', ''foo'', ''/workspace'']
        then RgClosed (Some 0)
          [RgMatch (Some ''/workspace/a.txt'') (Some 1) [''foo''],
           RgMatch (Some ''/workspace/b.txt'') (Some 2) [''foo'']] []
        else RgErrorEvent ''unexpected arguments'')
     literalRegExp
     \<lparr> rootPath = ''/workspace'', pattern = ''foo'', filePattern = None, ignoreCase = None,
       maxResults = Some 1, includeHidden = None, contextLines = None \<rparr>
     (workspace_tree [FileEntry ''a.txt'' (Some ''foo''), FileEntry ''b.txt'' (Some ''a\<newline>foo\<newline>b'')])
   = Inr [\<lparr> sr_file = ''/workspace/a.txt'', sr_line = 1, sr_match = ''foo'' \<rparr>,
          \<lparr> sr_file = ''/workspace/b.txt'', sr_line = 2, sr_match = ''foo'' \<rparr>]"
  by code_simp

text \<open>
  Without context lines the walker keeps the bound.
\<close>

lemma scanLines_bound:
  "wk_contextLines w \<le> 0 \<Longrightarrow> int (length results) < wk_maxResults w \<Longrightarrow>
     int (length (scanLines w fullPath lines i ls results)) \<le> wk_maxResults w"
  by (induction ls arbitrary: results i) (auto simp: Let_def)

lemma searchDir_bound:
  assumes "wk_contextLines w \<le> 0"
  shows "int (length (searchDir w dirPath entries results))
           \<le> max (int (length results)) (wk_maxResults w)"
    and "int (length (searchEntries w dirPath entries results))
           \<le> max (int (length results)) (wk_maxResults w)"
  using assms
proof (induction w dirPath entries results and w dirPath entries results
    rule: searchDir_searchEntries.induct)
  case (1 w dirPath entries results)
  then show ?case by auto
next
  case (2 w dirPath results)
  show ?case by simp
next
  case (3 w dirPath entry rest results)
  let ?full = "path_join (path (wk_host w)) [dirPath, entryName entry]"
  show ?case
  proof (cases "int (length results) \<ge> wk_maxResults w")
    case True
    then show ?thesis by simp
  next
    case room: False
    show ?thesis
    proof (cases "validatePath (wk_host w) ?full")
      case (Inl e)
      then show ?thesis using "3.IH" "3.prems" room by (simp add: Let_def)
    next
      case v: (Inr v)
      show ?thesis
      proof (cases entry)
        case (OtherEntry name)
        then show ?thesis using "3.IH" "3.prems" room v by (simp add: Let_def)
      next
        case d: (DirEntry name below)
        show ?thesis
        proof (cases "name \<in> set (wk_excludeDirs w)")
          case True
          then show ?thesis using "3.IH" "3.prems" room v d by (simp add: Let_def)
        next
          case False
          let ?r1 = "searchDir w ?full below results"
          have a: "int (length ?r1) \<le> max (int (length results)) (wk_maxResults w)"
            using "3.IH" "3.prems" room v d False by simp
          have "int (length (searchEntries w dirPath rest ?r1))
                \<le> max (int (length ?r1)) (wk_maxResults w)"
            using "3.IH" "3.prems" room v d False by simp
          then show ?thesis using a room v d False by (simp add: Let_def)
        qed
      next
        case f: (FileEntry name body)
        show ?thesis
        proof (cases "case wk_fileRegex w of None \<Rightarrow> True | Some t \<Rightarrow> t name")
          case False
          then show ?thesis using "3.IH" "3.prems" room v f by (simp add: Let_def)
        next
          case m: True
          show ?thesis
          proof (cases body)
            case None
            then show ?thesis using "3.IH" "3.prems" room v f m by (simp add: Let_def)
          next
            case (Some c)
            let ?r1 = "scanLines w ?full (js_split LF c) 0 (js_split LF c) results"
            have a: "int (length ?r1) \<le> wk_maxResults w"
              using room "3.prems" by (intro scanLines_bound) auto
            have "int (length (searchEntries w dirPath rest ?r1))
                  \<le> max (int (length ?r1)) (wk_maxResults w)"
              using "3.IH" "3.prems" room v f m Some by simp
            then show ?thesis using a room v f m Some by (simp add: Let_def)
          qed
        qed
      qed
    qed
  qed
qed

lemma searchCodeFallback_bound:
  assumes "searchCodeFallback h regexp opts excludeDirs tree = Inr results"
    and "optOr (contextLines opts) 0 \<le> 0"
  shows "int (length results) \<le> max 0 (optOr (maxResults opts) 1000)"
proof -
  from assms(1) obtain regex fileRegex v
    where w: "results = searchDir (walkerOf h regex fileRegex opts excludeDirs) v (tree v) []"
    by (auto simp: searchCodeFallback_def simp del: searchDir.simps
        split: sum.splits option.splits if_splits)
  let ?w = "walkerOf h regex fileRegex opts excludeDirs"
  have "int (length (searchDir ?w v (tree v) []))
        \<le> max (int (length ([]::SearchResult list))) (wk_maxResults ?w)"
    using assms(2) by (intro searchDir_bound(1)) (simp add: walkerOf_def)
  then show ?thesis using w by (simp add: walkerOf_def)
qed

subsection \<open>The availability probe\<close>

lemma probe_step_set:
  "ripgrepAvailable s \<noteq> None \<Longrightarrow> probe_step e s = Some s' \<Longrightarrow>
     pr_spawned s' = pr_spawned s \<and> ripgrepAvailable s' \<noteq> None"
  by (cases e) (auto simp: assign_def split: if_splits)

lemma probe_run_set:
  "ripgrepAvailable s \<noteq> None \<Longrightarrow> probe_run es s = Some s' \<Longrightarrow>
     pr_spawned s' = pr_spawned s \<and> ripgrepAvailable s' \<noteq> None"
proof (induction es arbitrary: s)
  case Nil
  then show ?case by simp
next
  case (Cons e es)
  then obtain s1 where s1: "probe_step e s = Some s1" "probe_run es s1 = Some s'"
    by (auto split: option.splits)
  then have "pr_spawned s1 = pr_spawned s \<and> ripgrepAvailable s1 \<noteq> None"
    using Cons.prems(1) probe_step_set by blast
  then show ?case
    using Cons.IH [of s1] s1 by simp
qed

lemma probe_run_invokes:
  "ripgrepAvailable s = None \<Longrightarrow>
     probe_run (replicate n Invoke) s = Some (s\<lparr> pr_spawned := pr_spawned s + n \<rparr>)"
  by (induction n arbitrary: s) simp_all

text \<open>
  C7, as the code has it. The memo caches the result of a settled probe for the calls
  that come later: a call of the check that finds the variable set returns at once,
  spawning nothing and writing nothing, and from then on, whatever handlers run, no
  probe is spawned and the variable is never null again. The calls that find the
  variable still null spawn a probe each: \<open>n\<close> calls entered before a probe has
  settled spawn \<open>n\<close> probes.
\<close>

theorem probe_memo_after_settled:
  "(ripgrepAvailable s \<noteq> None \<longrightarrow> probe_step Invoke s = Some s)
   \<and> (ripgrepAvailable s \<noteq> None \<longrightarrow> probe_run es s = Some s' \<longrightarrow>
        pr_spawned s' = pr_spawned s \<and> ripgrepAvailable s' \<noteq> None)
   \<and> probe_run (replicate n Invoke) probe_init = Some (probe_init\<lparr> pr_spawned := n \<rparr>)"
  using probe_run_set [of s es s'] probe_run_invokes [of probe_init n]
  by (simp add: probe_init_def)

theorem probe_memo_after_settled_witness:
  "ripgrepAvailable (assign True (probe_init\<lparr> pr_spawned := 1, pr_closed := [1] \<rparr>)) \<noteq> None
   \<and> probe_run [Invoke, ProbeClose 1 (Some 0)] probe_init
       = Some (assign True (probe_init\<lparr> pr_spawned := 1, pr_closed := [1] \<rparr>))
   \<and> probe_step Invoke (assign True (probe_init\<lparr> pr_spawned := 1, pr_closed := [1] \<rparr>))
       = Some (assign True (probe_init\<lparr> pr_spawned := 1, pr_closed := [1] \<rparr>))
   \<and> probe_run [Invoke, Invoke, Invoke] (assign True (probe_init\<lparr> pr_spawned := 1, pr_closed := [1] \<rparr>))
       = Some (assign True (probe_init\<lparr> pr_spawned := 1, pr_closed := [1] \<rparr>))
   \<and> probe_run (replicate 3 Invoke) probe_init = Some (probe_init\<lparr> pr_spawned := 3 \<rparr>)"
proof -
  let ?s = "assign True (probe_init\<lparr> pr_spawned := 1, pr_closed := [1] \<rparr>)"
  have f: "ripgrepAvailable ?s \<noteq> None"
    by (simp add: assign_def)
  have r: "probe_run [Invoke, ProbeClose 1 (Some 0)] probe_init = Some ?s"
    by (simp add: probe_init_def assign_def isProbe_def)
  have t: "probe_run [Invoke, Invoke, Invoke] ?s = Some ?s"
    by (simp add: probe_init_def assign_def)
  show ?thesis
    using probe_memo_after_settled [of ?s "[Invoke, Invoke, Invoke]" ?s 3] f r t
    by simp
qed

text \<open>
  C7 as stated fails. Three callers that enter the check before a probe has settled
  spawn three probes. A probe that closes with exit code 0 sets the variable to true,
  and its timer, which nothing clears, sets it to false two seconds later.
\<close>

theorem probe_twice_and_overwritten:
  "probe_run [Invoke, Invoke, Invoke] probe_init
   = Some \<lparr> ripgrepAvailable = None, pr_spawned = 3, pr_closed = [], pr_errored = [],
            pr_timed = [], pr_writes = [] \<rparr>
   \<and> probe_run [Invoke, ProbeClose 1 (Some 0)] probe_init
   = Some \<lparr> ripgrepAvailable = Some True, pr_spawned = 1, pr_closed = [1], pr_errored = [],
            pr_timed = [], pr_writes = [True] \<rparr>
   \<and> probe_run [Invoke, ProbeClose 1 (Some 0), ProbeTimer 1] probe_init
   = Some \<lparr> ripgrepAvailable = Some False, pr_spawned = 1, pr_closed = [1], pr_errored = [],
            pr_timed = [1], pr_writes = [True, False] \<rparr>"
  by code_simp

subsection \<open>The filename walker\<close>

lemma runSteps_stopped: "stopped fd w \<Longrightarrow> runSteps fd es w = Inr w"
  by (cases es) simp_all

lemma runSteps_append:
  "runSteps fd (xs @ ys) w =
     (case runSteps fd xs w of Inl p \<Rightarrow> Inl p | Inr w' \<Rightarrow> runSteps fd ys w')"
proof (induction xs arbitrary: w)
  case Nil
  show ?case by simp
next
  case (Cons e xs)
  show ?case
  proof (cases "stopped fd w")
    case True
    then show ?thesis by (simp add: runSteps_stopped)
  next
    case False
    have c: "stopped fd (w\<lparr> wl_cancelled := True, wl_checks := wl_checks w + 1 \<rparr>)"
      by (simp add: stopped_def)
    show ?thesis
      using False Cons.IH c by (cases e) (simp_all add: runSteps_stopped)
  qed
qed

lemma stopped_awaits [simp]: "stopped fd (w\<lparr> wl_awaits := k \<rparr>) = stopped fd w"
  by (simp add: stopped_def)

lemma stopped_checks [simp]: "stopped fd (w\<lparr> wl_checks := k \<rparr>) = stopped fd w"
  by (simp add: stopped_def)

lemma fileLoop_steps:
  "fileLoop fd currentPath entries w = runSteps fd (fileSteps fd currentPath entries) w"
proof (induction entries arbitrary: w)
  case Nil
  show ?case by simp
next
  case (Cons entry rest)
  show ?case
  proof (cases "isFile entry")
    case False
    then show ?thesis using Cons.IH by simp
  next
    case f: True
    show ?thesis
    proof (cases "stopped fd w")
      case True
      then show ?thesis using f by (simp add: Let_def stopped_def)
    next
      case False
      then have s: "\<not> (wl_cancelled w \<or> int (length (wl_results w)) \<ge> fd_maxResults fd)"
        by (simp add: stopped_def)
      show ?thesis
        using f False s Cons.IH
        by (simp add: Let_def awaitPoint_def pushIfMatch_def split: sum.splits)
    qed
  qed
qed


lemma search_dirLoop_steps:
  "search fd currentPath entries depth w = runSteps fd (searchSteps fd currentPath entries depth) w"
  "dirLoop fd currentPath entries depth w = runSteps fd (dirSteps fd currentPath entries depth) w"
proof (induction fd currentPath entries depth w and fd currentPath entries depth w
    rule: search_dirLoop.induct)
  case (1 fd currentPath entries depth w)
  let ?w0 = "w\<lparr>wl_checks := wl_checks w + 1\<rparr>"
  show ?case
  proof (cases "wl_cancelled w \<or> int (length (wl_results w)) \<ge> fd_maxResults fd \<or> depth > fd_maxDepth fd")
    case True
    then show ?thesis by (auto simp: stopped_def)
  next
    case stop: False
    then have ns: "\<not> stopped fd w" by (simp add: stopped_def)
    show ?thesis
    proof (cases "elapsed (fd_schedule fd) (wl_checks w) > fd_timeoutMs fd")
      case True
      then show ?thesis using stop ns by simp
    next
      case go: False
      show ?thesis
      proof (cases "awaitPoint fd ?w0")
        case (Inl partial)
        then show ?thesis
          using stop ns go by (simp add: awaitPoint_def split: if_splits)
      next
        case w1: (Inr w1)
        then have t: "\<not> timerFires (fd_schedule fd) (wl_awaits w)"
          and w1_def: "w1 = ?w0\<lparr> wl_awaits := wl_awaits w + 1 \<rparr>"
          by (simp_all add: awaitPoint_def split: if_splits)
        show ?thesis
        proof (cases "fileLoop fd currentPath entries w1")
          case (Inl partial)
          then show ?thesis
            using stop ns go w1 t w1_def
            by (simp add: runSteps_append fileLoop_steps [symmetric])
        next
          case w2: (Inr w2)
          have "dirLoop fd currentPath entries depth w2
                = runSteps fd (dirSteps fd currentPath entries depth) w2"
            using "1.IH" stop go w1 w2 by simp
          then show ?thesis
            using stop ns go w1 w2 t w1_def
            by (simp add: runSteps_append fileLoop_steps [symmetric])
        qed
      qed
    qed
  qed
next
  case (2 fd currentPath depth w)
  show ?case by simp
next
  case (3 fd currentPath entry rest depth w)
  show ?case
  proof (cases entry)
    case (FileEntry name body)
    then show ?thesis using "3.IH" by simp
  next
    case (OtherEntry name)
    then show ?thesis using "3.IH" by simp
  next
    case d: (DirEntry name below)
    show ?thesis
    proof (cases "wl_cancelled w \<or> int (length (wl_results w)) \<ge> fd_maxResults fd")
      case True
      then have "stopped fd w" by (simp add: stopped_def)
      then show ?thesis using d True by (auto simp: runSteps_stopped)
    next
      case stop: False
      then have ns: "\<not> stopped fd w" by (simp add: stopped_def)
      show ?thesis
      proof (cases "depth \<ge> fd_maxDepth fd")
        case True
        then show ?thesis using d by simp
      next
        case deep: False
        show ?thesis
        proof (cases "name \<in> set (fd_excludeDirs fd)")
          case True
          then show ?thesis using d stop deep "3.IH" by simp
        next
          case ex: False
          let ?full = "path_join (path (fd_host fd)) [currentPath, name]"
          show ?thesis
          proof (cases "awaitPoint fd w")
            case (Inl partial)
            then show ?thesis
              using d stop ns deep ex by (simp add: Let_def awaitPoint_def split: if_splits)
          next
            case w1: (Inr w1)
            then have t: "\<not> timerFires (fd_schedule fd) (wl_awaits w)"
              and w1_def: "w1 = w\<lparr> wl_awaits := wl_awaits w + 1 \<rparr>"
              by (simp_all add: awaitPoint_def split: if_splits)
            have ns1: "\<not> stopped fd w1" using ns w1_def by simp
            show ?thesis
            proof (cases "validatePath (fd_host fd) ?full")
              case (Inl e)
              have "dirLoop fd currentPath rest depth w1
                    = runSteps fd (dirSteps fd currentPath rest depth) w1"
                using "3.IH" d stop deep ex w1 Inl by simp
              then show ?thesis
                using d stop ns deep ex w1 Inl t w1_def by (simp add: Let_def)
            next
              case v: (Inr v)
              let ?w2 = "pushIfMatch fd name ?full w1"
              have s: "search fd ?full below (depth + 1) ?w2
                       = runSteps fd (searchSteps fd ?full below (depth + 1)) ?w2"
                using "3.IH" d stop deep ex w1 v by simp
              have p: "runSteps fd ((if nameMatches fd name then [Push ?full] else []) @ xs) w1
                       = runSteps fd xs ?w2" for xs
                using ns1 by (simp add: pushIfMatch_def)
              show ?thesis
              proof (cases "search fd ?full below (depth + 1) ?w2")
                case (Inl partial)
                then have r: "runSteps fd (searchSteps fd ?full below (depth + 1)) ?w2 = Inl partial"
                  using s by simp
                show ?thesis
                  using d stop ns deep ex w1 v t w1_def Inl r p
                  by (simp add: Let_def runSteps_append del: searchSteps.simps search.simps)
              next
                case w3: (Inr w3)
                then have r: "runSteps fd (searchSteps fd ?full below (depth + 1)) ?w2 = Inr w3"
                  using s by simp
                have "dirLoop fd currentPath rest depth w3
                      = runSteps fd (dirSteps fd currentPath rest depth) w3"
                  using "3.IH" d stop deep ex w1 v w3 by simp
                then show ?thesis
                  using d stop ns deep ex w1 v w3 t w1_def r p
                  by (simp add: Let_def runSteps_append del: searchSteps.simps search.simps)
              qed
            qed
          qed
        qed
      qed
    qed
  qed
qed


lemma awaitsIn_Cons: "awaitsIn (e # es) = (if e = Await then 1 else 0) + awaitsIn es"
  by (simp add: awaitsIn_def)


lemma pushesIn_Cons: "pushesIn (e # es) = (case e of Push p \<Rightarrow> [p] | _ \<Rightarrow> []) @ pushesIn es"
  by (cases e) simp_all



lemma fileSteps_schedule:
  "fileSteps (fd\<lparr> fd_schedule := s \<rparr>) currentPath entries = fileSteps fd currentPath entries"
  by (induction entries) (simp_all add: nameMatches_def Let_def)

lemma searchSteps_schedule:
  "searchSteps (fd\<lparr> fd_schedule := s \<rparr>) currentPath entries depth
     = searchSteps fd currentPath entries depth"
  "dirSteps (fd\<lparr> fd_schedule := s \<rparr>) currentPath entries depth
     = dirSteps fd currentPath entries depth"
proof (induction fd currentPath entries depth and fd currentPath entries depth
    rule: searchSteps_dirSteps.induct)
  case (1 fd currentPath entries depth)
  then show ?case by (simp add: fileSteps_schedule)
next
  case (2 fd currentPath depth)
  show ?case by simp
next
  case (3 fd currentPath entry rest depth)
  show ?case
  proof (cases entry)
    case (FileEntry name body)
    then show ?thesis using "3.IH" by simp
  next
    case (OtherEntry name)
    then show ?thesis using "3.IH" by simp
  next
    case d: (DirEntry name below)
    show ?thesis
      using d "3.IH"
      by (auto simp: Let_def nameMatches_def split: sum.splits simp del: searchSteps.simps)
  qed
qed

lemma runSteps_rejected:
  "runSteps fd es w = Inl partial \<Longrightarrow>
     \<exists>i<length es. es ! i = Await
       \<and> timerFires (fd_schedule fd) (wl_awaits w + awaitsIn (take i es))
       \<and> partial = wl_results w @ pushesIn (take i es)"
proof (induction es arbitrary: w)
  case Nil
  then show ?case by simp
next
  case (Cons e es)
  have ns: "\<not> stopped fd w"
    using Cons.prems by (auto simp: runSteps_stopped)
  show ?case
  proof (cases "e = Await \<and> timerFires (fd_schedule fd) (wl_awaits w)")
    case True
    then have "partial = wl_results w" using Cons.prems ns by simp
    then show ?thesis using True by (intro exI [of _ 0]) (simp add: awaitsIn_def)
  next
    case False
    let ?w1 = "case e of Check \<Rightarrow> w\<lparr> wl_checks := wl_checks w + 1 \<rparr>
                       | Await \<Rightarrow> w\<lparr> wl_awaits := wl_awaits w + 1 \<rparr>
                       | Push p \<Rightarrow> w\<lparr> wl_results := wl_results w @ [p] \<rparr>"
    have "runSteps fd es ?w1 = Inl partial"
      using Cons.prems ns False by (cases e) (simp_all split: if_splits)
    from Cons.IH [OF this] obtain i where i: "i < length es" "es ! i = Await"
      "timerFires (fd_schedule fd) (wl_awaits ?w1 + awaitsIn (take i es))"
      "partial = wl_results ?w1 @ pushesIn (take i es)"
      by blast
    have "timerFires (fd_schedule fd) (wl_awaits w + awaitsIn (take (Suc i) (e # es)))"
      using i(3) by (cases e) (simp_all add: awaitsIn_Cons)
    moreover have "partial = wl_results w @ pushesIn (take (Suc i) (e # es))"
      using i(4) by (cases e) simp_all
    ultimately show ?thesis
      using i(1,2) by (intro exI [of _ "Suc i"]) simp
  qed
qed

lemma search_rejected:
  "search fd currentPath entries depth w = Inl partial \<Longrightarrow>
     \<exists>i<length (searchSteps fd currentPath entries depth).
       searchSteps fd currentPath entries depth ! i = Await
       \<and> timerFires (fd_schedule fd)
            (wl_awaits w + awaitsIn (take i (searchSteps fd currentPath entries depth)))
       \<and> partial = wl_results w @ pushesIn (take i (searchSteps fd currentPath entries depth))"
  unfolding search_dirLoop_steps by (rule runSteps_rejected)





subsection \<open>Reading for internal operations\<close>

lemma splitLinesLoop_concat:
  "concat (splitLinesLoop lines cur cs) = concat lines @ cur @ cs"
  by (induction lines cur cs rule: splitLinesLoop.induct) auto

lemma splitLinesPreservingEndings_concat:
  "concat (splitLinesPreservingEndings text) = text"
  by (simp add: splitLinesPreservingEndings_def splitLinesLoop_concat)

lemma js_slice_all: "int (length xs) \<le> len \<Longrightarrow> js_slice xs 0 len = xs"
  by (auto simp: js_slice_def Let_def min_def)

lemma utf8Loop_one:
  "byte b \<le> 0x7F \<Longrightarrow> utf8Loop 0 0x80 0xBF [] (b # bs) = b # utf8Loop 0 0x80 0xBF [] bs"
  by simp

lemma utf8Loop_two:
  "\<not> byte b \<le> 0x7F \<Longrightarrow> 0xC2 \<le> byte b \<and> byte b \<le> 0xDF \<Longrightarrow> continuation c1 \<Longrightarrow>
     utf8Loop 0 0x80 0xBF [] (b # c1 # bs) = b # c1 # utf8Loop 0 0x80 0xBF [] bs"
  by (simp add: continuation_def)

lemma utf8Loop_three:
  "\<not> byte b \<le> 0x7F \<Longrightarrow> \<not> (0xC2 \<le> byte b \<and> byte b \<le> 0xDF) \<Longrightarrow>
   0xE0 \<le> byte b \<and> byte b \<le> 0xEF \<Longrightarrow>
   continuation c1 \<Longrightarrow> byte b = 0xE0 \<longrightarrow> 0xA0 \<le> byte c1 \<Longrightarrow>
   byte b = 0xED \<longrightarrow> byte c1 \<le> 0x9F \<Longrightarrow> continuation c2 \<Longrightarrow>
     utf8Loop 0 0x80 0xBF [] (b # c1 # c2 # bs) = b # c1 # c2 # utf8Loop 0 0x80 0xBF [] bs"
  by (auto simp: continuation_def)

lemma utf8Loop_four:
  "\<not> byte b \<le> 0x7F \<Longrightarrow> \<not> (0xC2 \<le> byte b \<and> byte b \<le> 0xDF) \<Longrightarrow>
   \<not> (0xE0 \<le> byte b \<and> byte b \<le> 0xEF) \<Longrightarrow> 0xF0 \<le> byte b \<and> byte b \<le> 0xF4 \<Longrightarrow>
   continuation c1 \<Longrightarrow> byte b = 0xF0 \<longrightarrow> 0x90 \<le> byte c1 \<Longrightarrow>
   byte b = 0xF4 \<longrightarrow> byte c1 \<le> 0x8F \<Longrightarrow> continuation c2 \<Longrightarrow> continuation c3 \<Longrightarrow>
     utf8Loop 0 0x80 0xBF [] (b # c1 # c2 # c3 # bs)
       = b # c1 # c2 # c3 # utf8Loop 0 0x80 0xBF [] bs"
  by (auto simp: continuation_def)

lemma decodeUtf8_wellFormed: "wellFormedUtf8 bytes \<Longrightarrow> decodeUtf8 bytes = bytes"
  unfolding decodeUtf8_def
proof (induction bytes rule: wellFormedUtf8.induct)
  case 1
  show ?case by simp
next
  case (2 b bs)
  consider (one) "byte b \<le> 0x7F"
    | (two) "\<not> byte b \<le> 0x7F" "0xC2 \<le> byte b \<and> byte b \<le> 0xDF"
    | (three) "\<not> byte b \<le> 0x7F" "\<not> (0xC2 \<le> byte b \<and> byte b \<le> 0xDF)"
        "0xE0 \<le> byte b \<and> byte b \<le> 0xEF"
    | (four) "\<not> byte b \<le> 0x7F" "\<not> (0xC2 \<le> byte b \<and> byte b \<le> 0xDF)"
        "\<not> (0xE0 \<le> byte b \<and> byte b \<le> 0xEF)" "0xF0 \<le> byte b \<and> byte b \<le> 0xF4"
    | (none) "\<not> byte b \<le> 0x7F" "\<not> (0xC2 \<le> byte b \<and> byte b \<le> 0xDF)"
        "\<not> (0xE0 \<le> byte b \<and> byte b \<le> 0xEF)" "\<not> (0xF0 \<le> byte b \<and> byte b \<le> 0xF4)"
    by blast
  then show ?case
  proof cases
    case one
    then show ?thesis
      using "2.prems" "2.IH"(1) by (simp only: utf8Loop_one wellFormedUtf8.simps if_True)
  next
    case two
    then obtain c1 rest where bs: "bs = c1 # rest" and c: "continuation c1" "wellFormedUtf8 rest"
      using "2.prems" by (cases bs) simp_all
    have "utf8Loop 0 0x80 0xBF [] rest = rest"
      using "2.IH"(2) two bs c by simp
    then show ?thesis
      using utf8Loop_two [OF two c(1), of rest] bs by simp
  next
    case three
    then obtain c1 c2 rest where bs: "bs = c1 # c2 # rest"
      and c: "continuation c1" "byte b = 0xE0 \<longrightarrow> 0xA0 \<le> byte c1"
        "byte b = 0xED \<longrightarrow> byte c1 \<le> 0x9F" "continuation c2" "wellFormedUtf8 rest"
      using "2.prems" by (cases bs; cases "tl bs") simp_all
    have "utf8Loop 0 0x80 0xBF [] rest = rest"
      using "2.IH"(3) three bs c by simp
    then show ?thesis
      using utf8Loop_three [OF three c(1-4), of rest] bs by simp
  next
    case four
    then obtain c1 c2 c3 rest where bs: "bs = c1 # c2 # c3 # rest"
      and c: "continuation c1" "byte b = 0xF0 \<longrightarrow> 0x90 \<le> byte c1"
        "byte b = 0xF4 \<longrightarrow> byte c1 \<le> 0x8F" "continuation c2" "continuation c3"
        "wellFormedUtf8 rest"
      using "2.prems" by (cases bs; cases "tl bs"; cases "tl (tl bs)") simp_all
    have "utf8Loop 0 0x80 0xBF [] rest = rest"
      using "2.IH"(4) four bs c by simp
    then show ?thesis
      using utf8Loop_four [OF four c(1-5), of rest] bs by simp
  next
    case none
    then show ?thesis using "2.prems" by auto
  qed
qed

text \<open>
  C5, as the code has it. An internal read at offset 0 whose length is at least the number
  of lines of the file returns the bytes of the file unchanged, whatever its line
  terminators are (\<^verbatim>\<open>\n\<close>, \<^verbatim>\<open>\r\n\<close> or a lone \<^verbatim>\<open>\r\<close>, in any mix), when the file is
  well-formed UTF-8.
\<close>

theorem readFileInternal_roundtrip:
  assumes "validatePath h filePath = Inr validPath"
    and "\<not> isImageFile d (getMimeType d validPath)"
    and "readFile d validPath = Some bytes"
    and "wellFormedUtf8 bytes"
    and "int (length (splitLinesPreservingEndings bytes)) \<le> len"
  shows "readFileInternal h d filePath 0 (Some len) = Inr bytes"
  using assms
  by (simp add: readFileInternal_def decodeUtf8_wellFormed js_slice_all
      splitLinesPreservingEndings_concat Let_def)

theorem readFileInternal_roundtrip_witness:
  "readFileInternal (workspace_host (plain_files [''/workspace'', ''/workspace/a.txt'']))
     (text_disk [(''/workspace/a.txt'',
        ''L1'' @ [CHR 0xC3, CHR 0xA9, CR, LF] @ ''L2'' @ [LF] @ ''L3'')])
     ''/workspace/a.txt'' 0 (Some 3)
   = Inr (''L1'' @ [CHR 0xC3, CHR 0xA9, CR, LF] @ ''L2'' @ [LF] @ ''L3'')"
proof -
  let ?bytes = "''L1'' @ [CHR 0xC3, CHR 0xA9, CR, LF] @ ''L2'' @ [LF] @ ''L3''"
  have v: "validatePath (workspace_host (plain_files [''/workspace'', ''/workspace/a.txt'']))
             ''/workspace/a.txt'' = Inr ''/workspace/a.txt''"
    by code_simp
  have u: "wellFormedUtf8 ?bytes"
    by code_simp
  have l: "int (length (splitLinesPreservingEndings ?bytes)) \<le> 3"
    by code_simp
  show ?thesis
    by (rule readFileInternal_roundtrip [OF v _ _ u l]) (simp_all add: text_disk_def)
qed

text \<open>
  C5 as stated fails on a text file that is not UTF-8: the file is read as UTF-8, and the
  byte \<^verbatim>\<open>E9\<close> of a Latin-1 file (the letter e with an acute accent) comes back as the
  three bytes of the replacement character. The line terminators are unchanged.
\<close>

theorem readFileInternal_latin1_changed:
  "readFileInternal (workspace_host (plain_files [''/workspace'', ''/workspace/a.txt'']))
     (text_disk [(''/workspace/a.txt'', ''L1'' @ [CHR 0xE9, CR, LF] @ ''L2'' @ [LF])])
     ''/workspace/a.txt'' 0 (Some 2)
   = Inr (''L1'' @ [CHR 0xEF, CHR 0xBF, CHR 0xBD, CR, LF] @ ''L2'' @ [LF])
   \<and> readFileInternal (workspace_host (plain_files [''/workspace'', ''/workspace/a.txt'']))
     (text_disk [(''/workspace/a.txt'', ''L1'' @ [CHR 0xE9, CR, LF] @ ''L2'' @ [LF])])
     ''/workspace/a.txt'' 0 (Some 2)
   \<noteq> Inr (''L1'' @ [CHR 0xE9, CR, LF] @ ''L2'' @ [LF])
   \<and> length (splitLinesPreservingEndings (''L1'' @ [CHR 0xE9, CR, LF] @ ''L2'' @ [LF])) = 2"
  by code_simp

end
